theory Spec2Isabelle
  imports Main "HOL-Library.Word"
begin

unbundle bit_operations_syntax

section \<open>The stroke rasteriser of \<open>raster_stroke.py\<close>\<close>

text \<open>
  \<open>Stroke\<close> is a clocked component: a point stream comes in, a wishbone master port goes
  out to the framebuffer memory. The embedding is cycle accurate. The registers driven in
  the \<open>sync\<close> domain form the state record, everything sampled from outside in a cycle
  forms the input record, the \<open>comb\<close> assignments are functions of both, and
  \<open>step\<close> is one rising clock edge.

  Widths follow the declarations of the source. Arithmetic on signals is done on
  unbounded integers, as the hardware description language widens every intermediate
  result, and is cut to the width of the signal that is assigned.
\<close>

subsection \<open>Framebuffer parameters\<close>

text \<open>
  \<open>self.fb\<close> is a \<open>DMAFramebuffer\<close>, a class of \<open>tiliqua.dma_framebuffer\<close>. The engine
  reads \<open>fb.timings.h_active\<close>, \<open>fb.timings.v_active\<close>, \<open>fb.bytes_per_pixel\<close>,
  \<open>fb.fb_base\<close> and \<open>fb.bus.addr_width\<close> from it; they are parameters here.
  (\<open>fb_len_words\<close> is computed by \<open>elaborate\<close> and never used.)
\<close>

record framebuffer =
  h_active :: nat
  v_active :: nat
  bytes_per_pixel :: nat
  fb_base :: nat
  addr_width :: nat

definition fb_hwords :: "framebuffer \<Rightarrow> nat" where
  "fb_hwords fb = (h_active fb * bytes_per_pixel fb) div 4"

subsection \<open>Inputs of one clock cycle\<close>

text \<open>
  The configuration signals (\<open>hue\<close>, \<open>intensity\<close>, \<open>scale_x\<close>, \<open>scale_y\<close>, \<open>x_offset\<close>,
  \<open>y_offset\<close>) are attributes of the component that something else drives;
  \<open>rotate_left\<close> and \<open>enable\<close> are ports. \<open>fb_enable\<close> is \<open>self.fb.enable\<close>, whose
  negation resets the \<open>sync\<close> domain. \<open>valid\<close> and the four payload lanes are
  \<open>point_stream\<close> (the output of the optional \<open>dsp.Resample\<close> stage, or \<open>self.i\<close>);
  a lane is the raw value of an \<open>ASQ\<close> sample, a signed 16 bit number. \<open>ack\<close> and
  \<open>dat_r\<close> come back from the bus.
\<close>

record inputs =
  enable :: bool
  rotate_left :: bool
  hue :: "4 word"
  intensity :: "4 word"
  scale_x :: "4 word"
  scale_y :: "4 word"
  x_offset :: "16 word"
  y_offset :: "16 word"
  fb_enable :: bool
  valid :: bool
  payload0 :: "16 word"
  payload1 :: "16 word"
  payload2 :: "16 word"
  payload3 :: "16 word"
  ack :: bool
  dat_r :: "32 word"

subsection \<open>Registers\<close>

datatype fsm_state = OFF | LATCH0 | LATCH1 | READ | WAIT | WAIT2 | WAIT3 | WRITE

record stroke =
  fsm :: fsm_state
  sample_x :: "16 word"
  sample_y :: "16 word"
  sample_p :: "16 word"
  sample_c :: "16 word"
  sample_intensity :: "4 word"
  px_read :: "32 word"
  px_sum :: "16 word"
  bus_sel :: "4 word"
  bus_adr :: nat

text \<open>The values all registers take at power-up and under reset.\<close>

definition reset_state :: stroke where
  "reset_state = \<lparr> fsm = OFF, sample_x = 0, sample_y = 0, sample_p = 0, sample_c = 0,
     sample_intensity = 0, px_read = 0, px_sum = 0, bus_sel = 0, bus_adr = 0 \<rparr>"

subsection \<open>Combinational signals: pixel position\<close>

text \<open>
  \<open>sample_x\<close> and \<open>sample_y\<close> are \<open>signed(16)\<close>, read with \<open>sint\<close>. \<open>-sample_y\<close> is
  one bit wider than \<open>sample_y\<close>, so the negation never overflows. \<open>v[0:2]\<close> is
  \<open>v mod 4\<close>, \<open>v >> 2\<close> on a signed value is \<open>v div 4\<close> (rounding down).
  \<open>subpix_shift\<close> is \<open>unsigned(6)\<close> and never exceeds 24; \<open>x_offs\<close> and \<open>y_offs\<close>
  are \<open>unsigned(16)\<close>, \<open>pixel_offs\<close> is \<open>unsigned(32)\<close>.
\<close>

definition subpix_shift :: "inputs \<Rightarrow> stroke \<Rightarrow> nat" where
  "subpix_shift i s =
     (if rotate_left i then nat ((- sint (sample_y s)) mod 4) * 8
      else nat (sint (sample_x s) mod 4) * 8)"

definition x_offs :: "framebuffer \<Rightarrow> inputs \<Rightarrow> stroke \<Rightarrow> 16 word" where
  "x_offs fb i s =
     (if rotate_left i then word_of_int (int (fb_hwords fb div 2) + (- sint (sample_y s)) div 4)
      else word_of_int (int (fb_hwords fb div 2) + sint (sample_x s) div 4))"

definition y_offs :: "framebuffer \<Rightarrow> inputs \<Rightarrow> stroke \<Rightarrow> 16 word" where
  "y_offs fb i s =
     (if rotate_left i then word_of_int (sint (sample_x s) + int (v_active fb div 2))
      else word_of_int (sint (sample_y s) + int (v_active fb div 2)))"

definition pixel_offs :: "framebuffer \<Rightarrow> inputs \<Rightarrow> stroke \<Rightarrow> 32 word" where
  "pixel_offs fb i s = word_of_nat (unat (y_offs fb i s) * fb_hwords fb + unat (x_offs fb i s))"

text \<open>The condition of the \<open>If\<close> in state \<open>LATCH1\<close>.\<close>

definition in_bounds :: "framebuffer \<Rightarrow> inputs \<Rightarrow> stroke \<Rightarrow> bool" where
  "in_bounds fb i s \<longleftrightarrow> unat (x_offs fb i s) < fb_hwords fb \<and> unat (y_offs fb i s) < v_active fb"

subsection \<open>Combinational signals: stream and bus\<close>

definition ready :: "stroke \<Rightarrow> bool" where
  "ready s \<longleftrightarrow> fsm s = LATCH0"

definition bus_stb :: "stroke \<Rightarrow> bool" where
  "bus_stb s \<longleftrightarrow> fsm s = READ \<or> fsm s = WRITE"

definition bus_cyc :: "stroke \<Rightarrow> bool" where
  "bus_cyc s \<longleftrightarrow> fsm s = READ \<or> fsm s = WRITE"

definition bus_we :: "stroke \<Rightarrow> bool" where
  "bus_we s \<longleftrightarrow> fsm s = WRITE"

text \<open>\<open>new_color\<close> and \<open>white\<close> are \<open>unsigned(4)\<close>; \<open>sample_c >> 10\<close> is arithmetic.\<close>

definition new_color :: "inputs \<Rightarrow> stroke \<Rightarrow> 4 word" where
  "new_color i s = word_of_int (sint (sample_c s) div 2 ^ 10 + uint (hue i))"

definition white :: "4 word" where
  "white = 0xF"

text \<open>\<open>px_sum[4:8]\<close>, and the five bit sum \<open>px_sum[4:8] + sample_intensity\<close>.\<close>

definition px_sum_4_8 :: "stroke \<Rightarrow> nat" where
  "px_sum_4_8 s = (unat (px_sum s) div 2 ^ 4) mod 2 ^ 4"

definition intensity_sum :: "stroke \<Rightarrow> nat" where
  "intensity_sum s = px_sum_4_8 s + unat (sample_intensity s)"

text \<open>\<open>Cat(lo, hi)\<close> with a four bit \<open>lo\<close>: \<open>lo\<close> takes bits 0 to 3, \<open>hi\<close> starts at bit 4.\<close>

definition Cat :: "4 word \<Rightarrow> nat \<Rightarrow> 32 word" where
  "Cat lo hi = ucast lo OR push_bit 4 (word_of_nat hi)"

text \<open>
  \<open>bus.dat_w\<close> is driven in state \<open>WRITE\<close> only and is 0 elsewhere. The shifts of the
  source are wider than 32 bits; the assignment keeps the low 32, which is what
  \<open>push_bit\<close> on a 32 bit word keeps.
\<close>

definition bus_dat_w :: "inputs \<Rightarrow> stroke \<Rightarrow> 32 word" where
  "bus_dat_w i s =
     (if fsm s = WRITE then
        (if intensity_sum s \<ge> 0xF then
           (px_read s AND NOT (push_bit (subpix_shift i s) 0xFF)) OR
           push_bit (subpix_shift i s) (Cat (new_color i s) (unat white))
         else
           (px_read s AND NOT (push_bit (subpix_shift i s) 0xFF)) OR
           push_bit (subpix_shift i s) (Cat (new_color i s) (intensity_sum s)))
      else 0)"

subsection \<open>One clock edge\<close>

text \<open>
  The right-hand sides of the \<open>sync\<close> assignments of each state. A lane is shifted
  right arithmetically by the scale and the offset is added; the sum is cut to 16 bits.
\<close>

definition latch_sample :: "inputs \<Rightarrow> stroke \<Rightarrow> stroke" where
  "latch_sample i s = s
     \<lparr> sample_x := word_of_int (sint (payload0 i) div 2 ^ unat (scale_x i) + sint (x_offset i)),
       sample_y := word_of_int (sint (payload1 i) div 2 ^ unat (scale_y i) + sint (y_offset i)),
       sample_p := payload2 i,
       sample_c := payload3 i,
       sample_intensity := intensity i \<rparr>"

definition fsm_step :: "framebuffer \<Rightarrow> inputs \<Rightarrow> stroke \<Rightarrow> stroke" where
  "fsm_step fb i s =
     (case fsm s of
        OFF \<Rightarrow> if enable i then s\<lparr>fsm := LATCH0\<rparr> else s
      | LATCH0 \<Rightarrow> if valid i then (latch_sample i s)\<lparr>fsm := LATCH1\<rparr> else s
      | LATCH1 \<Rightarrow>
          if in_bounds fb i s
          then s\<lparr>bus_sel := 0xF,
                 bus_adr := (fb_base fb + unat (pixel_offs fb i s)) mod 2 ^ addr_width fb,
                 fsm := READ\<rparr>
          else s\<lparr>fsm := LATCH0\<rparr>
      | READ \<Rightarrow>
          if bus_stb s \<and> ack i
          then s\<lparr>px_read := dat_r i,
                 px_sum := ucast (drop_bit (subpix_shift i s) (dat_r i) AND 0xFF),
                 fsm := WAIT\<rparr>
          else s
      | WAIT \<Rightarrow> s\<lparr>fsm := WAIT2\<rparr>
      | WAIT2 \<Rightarrow> s\<lparr>fsm := WAIT3\<rparr>
      | WAIT3 \<Rightarrow> s\<lparr>fsm := WRITE\<rparr>
      | WRITE \<Rightarrow> if bus_stb s \<and> ack i then s\<lparr>fsm := LATCH0\<rparr> else s)"

text \<open>\<open>ResetInserter({'sync': ~self.fb.enable})\<close>: the reset wins over every assignment.\<close>

definition step :: "framebuffer \<Rightarrow> inputs \<Rightarrow> stroke \<Rightarrow> stroke" where
  "step fb i s = (if \<not> fb_enable i then reset_state else fsm_step fb i s)"

text \<open>The engine alone, from power-up, fed one input record per cycle.\<close>

primrec state_at :: "framebuffer \<Rightarrow> (nat \<Rightarrow> inputs) \<Rightarrow> nat \<Rightarrow> stroke" where
  "state_at fb inp 0 = reset_state"
| "state_at fb inp (Suc n) = step fb (inp n) (state_at fb inp n)"

subsection \<open>Events of a cycle\<close>

text \<open>
  A point is captured in a cycle where the stream handshake succeeds and the reset is
  off. A read or write request is what the bus sees. A latched point leaves the engine
  when its write is acknowledged, when the bounds check rejects it, or when the reset
  clears the engine.
\<close>

definition captures :: "inputs \<Rightarrow> stroke \<Rightarrow> bool" where
  "captures i s \<longleftrightarrow> ready s \<and> valid i \<and> fb_enable i"

definition read_req :: "stroke \<Rightarrow> bool" where
  "read_req s \<longleftrightarrow> bus_cyc s \<and> bus_stb s \<and> \<not> bus_we s"

definition write_req :: "stroke \<Rightarrow> bool" where
  "write_req s \<longleftrightarrow> bus_cyc s \<and> bus_stb s \<and> bus_we s"

definition busy :: "stroke \<Rightarrow> bool" where
  "busy s \<longleftrightarrow> fsm s \<noteq> OFF \<and> fsm s \<noteq> LATCH0"

definition retires :: "framebuffer \<Rightarrow> inputs \<Rightarrow> stroke \<Rightarrow> bool" where
  "retires fb i s \<longleftrightarrow>
     (if \<not> fb_enable i then True
      else if fsm s = LATCH1 then \<not> in_bounds fb i s
      else write_req s \<and> ack i)"

text \<open>The four registers that hold the latched point.\<close>

definition sample_regs :: "stroke \<Rightarrow> 16 word \<times> 16 word \<times> 16 word \<times> 4 word" where
  "sample_regs s = (sample_x s, sample_y s, sample_c s, sample_intensity s)"

subsection \<open>The memory behind the bus\<close>

text \<open>
  Modelled from the spec: the memory resource behind the bus master interface. The memory
  controller and the arbiter are not part of \<open>raster_stroke.py\<close>. What the engine's
  port assumes of them is the classic wishbone cycle: a request is served in the cycle
  where \<open>ack\<close> answers \<open>cyc\<close> and \<open>stb\<close>; a read returns the word at \<open>adr\<close> on
  \<open>dat_r\<close>, a write stores the byte lanes of \<open>dat_w\<close> that \<open>sel\<close> selects. The
  number of cycles before \<open>ack\<close> is up to the memory.
\<close>

type_synonym memory = "nat \<Rightarrow> 32 word"

definition sel_mask :: "4 word \<Rightarrow> 32 word" where
  "sel_mask sel =
     (if bit sel 0 then 0x000000FF else 0) OR (if bit sel 1 then 0x0000FF00 else 0) OR
     (if bit sel 2 then 0x00FF0000 else 0) OR (if bit sel 3 then 0xFF000000 else 0)"

definition mem_step :: "inputs \<Rightarrow> stroke \<Rightarrow> memory \<Rightarrow> memory" where
  "mem_step i s mem =
     (if write_req s \<and> ack i
      then mem (bus_adr s :=
             (mem (bus_adr s) AND NOT (sel_mask (bus_sel s))) OR
             (bus_dat_w i s AND sel_mask (bus_sel s)))
      else mem)"

definition sys_step :: "framebuffer \<Rightarrow> inputs \<Rightarrow> stroke \<times> memory \<Rightarrow> stroke \<times> memory" where
  "sys_step fb i sm =
     (step fb (i\<lparr>dat_r := snd sm (bus_adr (fst sm))\<rparr>) (fst sm), mem_step i (fst sm) (snd sm))"

definition sys_run :: "framebuffer \<Rightarrow> stroke \<times> memory \<Rightarrow> inputs list \<Rightarrow> stroke \<times> memory" where
  "sys_run fb sm is = foldl (\<lambda>sm i. sys_step fb i sm) sm is"

text \<open>
  The inputs of one complete draw of the point and configuration in \<open>i\<close>: the point is
  offered, the bounds check runs, the read waits \<open>k\<close> cycles for its acknowledge, three
  cycles pass, the write waits \<open>j\<close> cycles for its acknowledge.
\<close>

definition draw :: "inputs \<Rightarrow> nat \<Rightarrow> nat \<Rightarrow> inputs list" where
  "draw i k j =
     [i\<lparr>valid := True\<rparr>, i] @ replicate k (i\<lparr>ack := False\<rparr>) @ [i\<lparr>ack := True\<rparr>, i, i, i] @
     replicate j (i\<lparr>ack := False\<rparr>) @ [i\<lparr>ack := True\<rparr>]"

fun draws :: "inputs \<Rightarrow> (nat \<times> nat) list \<Rightarrow> inputs list" where
  "draws i [] = []"
| "draws i ((k, j) # ds) = draw i k j @ draws i ds"

subsection \<open>Fields of a framebuffer word\<close>

text \<open>
  The byte of a word that the engine extracts in state \<open>READ\<close> (\<open>(dat_r >> shift) & 0xff\<close>),
  the nibble it then takes as the stored intensity (\<open>px_sum[4:8]\<close>), and the other nibble,
  where \<open>Cat(new_color, ...)\<close> puts the colour.
\<close>

definition pixel_byte :: "nat \<Rightarrow> 32 word \<Rightarrow> 32 word" where
  "pixel_byte sh w = drop_bit sh w AND 0xFF"

definition bits_7_4 :: "32 word \<Rightarrow> nat" where
  "bits_7_4 b = unat (drop_bit 4 b AND 0xF)"

definition bits_3_0 :: "32 word \<Rightarrow> nat" where
  "bits_3_0 b = unat (b AND 0xF)"

text \<open>
  Where a point offered in \<open>i\<close> lands: the address that \<open>LATCH1\<close> registers for it and
  its shift, both from the sample that \<open>LATCH0\<close> latches.
\<close>

definition target_adr :: "framebuffer \<Rightarrow> inputs \<Rightarrow> stroke \<Rightarrow> nat" where
  "target_adr fb i s =
     (fb_base fb + unat (pixel_offs fb i (latch_sample i s))) mod 2 ^ addr_width fb"

definition target_shift :: "inputs \<Rightarrow> stroke \<Rightarrow> nat" where
  "target_shift i s = subpix_shift i (latch_sample i s)"

subsection \<open>A small configuration to run on\<close>

text \<open>
  A framebuffer of 64 by 32 pixels at one byte per pixel, that is 16 words per line, and
  a cycle that offers the point (0, 0) unscaled, with hue 5 and intensity step 1. The three
  states are an engine waiting for a point, an engine reading for the point (1, 0) with
  step 8, and the same engine four cycles later, about to write.
\<close>

definition scenario_fb :: framebuffer where
  "scenario_fb = \<lparr> h_active = 64, v_active = 32, bytes_per_pixel = 1, fb_base = 0,
     addr_width = 22 \<rparr>"

definition scenario_inputs :: inputs where
  "scenario_inputs = \<lparr> enable = True, rotate_left = False, hue = 5, intensity = 1,
     scale_x = 0, scale_y = 0, x_offset = 0, y_offset = 0, fb_enable = True, valid = True,
     payload0 = 0, payload1 = 0, payload2 = 0, payload3 = 0, ack = True,
     dat_r = 0x11223A44 \<rparr>"

definition idle_state :: stroke where
  "idle_state = reset_state\<lparr>fsm := LATCH0\<rparr>"

definition read_state :: stroke where
  "read_state = reset_state\<lparr>fsm := READ, sample_x := 1, sample_intensity := 8,
     bus_sel := 0xF, bus_adr := 264\<rparr>"

definition write_state :: stroke where
  "write_state = read_state\<lparr>px_read := 0x11223A44, px_sum := 0x3A, fsm := WRITE\<rparr>"

text \<open>
  Further points for the same framebuffer: one right of the screen and one left of it,
  each as offered and as latched; the point (0, 0) as latched; a point offered with the
  rotation on; the scenario with the intensity step changed to 8; the scenario offered
  in every cycle; the scenario with the rotation on; and the point (1, 0) offered with
  intensity step 8, with the rotation off and on.
\<close>

definition far_right :: inputs where
  "far_right = scenario_inputs\<lparr>payload0 := 100\<rparr>"

definition far_right_latched :: stroke where
  "far_right_latched = (latch_sample far_right idle_state)\<lparr>fsm := LATCH1\<rparr>"

definition far_left :: inputs where
  "far_left = scenario_inputs\<lparr>payload0 := - 100\<rparr>"

definition far_left_latched :: stroke where
  "far_left_latched = (latch_sample far_left idle_state)\<lparr>fsm := LATCH1\<rparr>"

definition origin_latched :: stroke where
  "origin_latched = (latch_sample scenario_inputs idle_state)\<lparr>fsm := LATCH1\<rparr>"

definition rotated :: inputs where
  "rotated = scenario_inputs\<lparr>rotate_left := True, payload0 := 3, payload1 := - 5\<rparr>"

definition rotated_latched :: stroke where
  "rotated_latched = (latch_sample rotated idle_state)\<lparr>fsm := LATCH1\<rparr>"

definition retuned :: inputs where
  "retuned = scenario_inputs\<lparr>intensity := 8\<rparr>"

definition steady :: "nat \<Rightarrow> inputs" where
  "steady n = scenario_inputs"

definition turned :: inputs where
  "turned = scenario_inputs\<lparr>rotate_left := True\<rparr>"

definition one_zero :: inputs where
  "one_zero = scenario_inputs\<lparr>payload0 := 1, intensity := 8\<rparr>"

definition one_zero_turned :: inputs where
  "one_zero_turned = one_zero\<lparr>rotate_left := True\<rparr>"

section \<open>Properties\<close>

subsection \<open>Bits of the write payload\<close>

lemma mod4_cases: "nat ((k::int) mod 4) * 8 \<in> {0, 8, 16, 24}"
proof -
  have "k mod 4 = 0 \<or> k mod 4 = 1 \<or> k mod 4 = 2 \<or> k mod 4 = 3" by presburger
  then show ?thesis by auto
qed

lemma subpix_shift_cases: "subpix_shift i s \<in> {0, 8, 16, 24}"
  unfolding subpix_shift_def using mod4_cases by presburger

lemma subpix_shift_le: "subpix_shift i s \<le> 24"
  using subpix_shift_cases [of i s] by auto

lemma bit_nat_less: "v < 2 ^ k \<Longrightarrow> bit (v::nat) n \<Longrightarrow> n < k"
  by (metis bit_take_bit_iff take_bit_nat_eq_self)

lemma bit_4word_less: "bit (c :: 4 word) n \<Longrightarrow> n < 4"
  using bit_imp_le_length [of c n] by simp

lemma bit_32word_less: "bit (r :: 32 word) n \<Longrightarrow> n < 32"
  using bit_imp_le_length [of r n] by simp

lemma bit_255_int: "bit (255 :: int) n \<longleftrightarrow> n < 8"
proof -
  have "bit (mask 8 :: int) n \<longleftrightarrow> n < 8" by (auto simp add: bit_simps)
  moreover have "(mask 8 :: int) = 255" by (simp add: mask_eq_exp_minus_1)
  ultimately show ?thesis by auto
qed

lemma bit_15_int: "bit (15 :: int) n \<longleftrightarrow> n < 4"
proof -
  have "bit (mask 4 :: int) n \<longleftrightarrow> n < 4" by (auto simp add: bit_simps)
  moreover have "(mask 4 :: int) = 15" by (simp add: mask_eq_exp_minus_1)
  ultimately show ?thesis by auto
qed

lemma Cat_bits:
  "v < 16 \<Longrightarrow> bit (Cat c v) n \<longleftrightarrow> (if n < 4 then bit c n else n < 8 \<and> bit v (n - 4))"
  unfolding Cat_def
  using bit_nat_less [of v 4 "n - 4"] bit_4word_less [of c n]
  by (auto simp add: bit_simps)

lemma Cat_low: "v < 16 \<Longrightarrow> Cat c v AND 0xF = ucast c"
  by (rule bit_word_eqI) (auto simp: bit_simps Cat_bits bit_15_int dest: bit_4word_less)

lemma Cat_high: "v < 16 \<Longrightarrow> drop_bit 4 (Cat c v) = word_of_nat v"
proof (rule bit_word_eqI)
  fix n
  assume "v < 16" "n < LENGTH(32)"
  then show "bit (drop_bit 4 (Cat c v)) n \<longleftrightarrow> bit (word_of_nat v :: 32 word) n"
    using bit_nat_less [of v 4 n] by (auto simp: bit_simps Cat_bits)
qed

lemma payload_byte:
  assumes "sh \<le> 24" "v < 16"
  shows "drop_bit sh ((r AND NOT (push_bit sh 0xFF)) OR push_bit sh (Cat c v)) AND 0xFF = Cat c v"
  by (rule bit_word_eqI) (use assms in \<open>auto simp: bit_simps Cat_bits bit_255_int\<close>)

lemma payload_others:
  assumes "v < 16" "\<not> (sh \<le> n \<and> n < sh + 8)"
  shows "bit ((r AND NOT (push_bit sh 0xFF)) OR push_bit sh (Cat c v)) n = bit r n"
  using assms bit_32word_less [of r n]
  by (auto simp: bit_simps Cat_bits bit_255_int)

lemma and_15_mask: "(x :: 32 word) AND 0xF = take_bit 4 x"
proof -
  have "(0xF :: 32 word) = mask 4" by (simp add: mask_eq_exp_minus_1)
  then show ?thesis by (simp add: take_bit_eq_mask)
qed

lemma and_255_mask: "(x :: 32 word) AND 0xFF = take_bit 8 x"
proof -
  have "(0xFF :: 32 word) = mask 8" by (simp add: mask_eq_exp_minus_1)
  then show ?thesis by (simp add: take_bit_eq_mask)
qed

lemma bits_7_4_arith: "bits_7_4 b = (unat b div 16) mod 16"
  by (simp add: bits_7_4_def and_15_mask unsigned_take_bit_eq unat_drop_bit_eq
      take_bit_nat_def drop_bit_nat_def)

lemma bits_3_0_arith: "bits_3_0 b = unat b mod 16"
  by (simp add: bits_3_0_def and_15_mask unsigned_take_bit_eq take_bit_nat_def)

lemma unat_pixel_byte: "unat (pixel_byte sh w) = (unat w div 2 ^ sh) mod 256"
  by (simp add: pixel_byte_def and_255_mask unsigned_take_bit_eq unat_drop_bit_eq
      take_bit_nat_def drop_bit_nat_def)

lemma unat_ucast_pixel_byte:
  "unat (ucast (pixel_byte sh w) :: 16 word) = unat (pixel_byte sh w)"
proof -
  have "unat (pixel_byte sh w) < 256" by (simp add: unat_pixel_byte)
  then show ?thesis by (simp add: unsigned_ucast_eq take_bit_nat_def)
qed

lemma bus_dat_w_min:
  "fsm s = WRITE \<Longrightarrow> bus_dat_w i s =
     (px_read s AND NOT (push_bit (subpix_shift i s) 0xFF)) OR
     push_bit (subpix_shift i s) (Cat (new_color i s) (min 15 (intensity_sum s)))"
  by (simp add: bus_dat_w_def white_def min_def)

subsection \<open>One complete draw\<close>

lemma sys_run_Nil: "sys_run fb sm [] = sm"
  by (simp add: sys_run_def)

lemma sys_run_Cons: "sys_run fb sm (x # xs) = sys_run fb (sys_step fb x sm) xs"
  by (simp add: sys_run_def)

lemma sys_run_append: "sys_run fb sm (xs @ ys) = sys_run fb (sys_run fb sm xs) ys"
  by (simp add: sys_run_def)

lemma sel_mask_all: "sel_mask 0xF = - 1"
  by (simp add: sel_mask_def)

lemma read_stall:
  "fsm s = READ \<Longrightarrow> fb_enable i \<Longrightarrow> sys_run fb (s, m) (replicate k (i\<lparr>ack := False\<rparr>)) = (s, m)"
  by (induction k) (simp_all add: sys_run_Nil sys_run_Cons sys_step_def step_def fsm_step_def
      mem_step_def write_req_def bus_we_def)

lemma write_stall:
  "fsm s = WRITE \<Longrightarrow> fb_enable i \<Longrightarrow> sys_run fb (s, m) (replicate k (i\<lparr>ack := False\<rparr>)) = (s, m)"
  by (induction k) (simp_all add: sys_run_Nil sys_run_Cons sys_step_def step_def fsm_step_def
      mem_step_def)

lemma px_sum_4_8_of_byte:
  "px_sum_4_8 (s\<lparr>px_sum := ucast (pixel_byte sh w)\<rparr>) = bits_7_4 (pixel_byte sh w)"
  by (simp add: px_sum_4_8_def unat_ucast_pixel_byte bits_7_4_arith)

lemma latch_sample_flags [simp]:
  "latch_sample (i\<lparr>valid := v\<rparr>) s = latch_sample i s"
  "latch_sample (i\<lparr>ack := a\<rparr>) s = latch_sample i s"
  "latch_sample (i\<lparr>dat_r := x\<rparr>) s = latch_sample i s"
  by (simp_all add: latch_sample_def)

lemma position_cong:
  assumes "rotate_left i' = rotate_left i" "sample_x s' = sample_x s" "sample_y s' = sample_y s"
  shows "subpix_shift i' s' = subpix_shift i s" "x_offs fb i' s' = x_offs fb i s"
    "y_offs fb i' s' = y_offs fb i s" "pixel_offs fb i' s' = pixel_offs fb i s"
    "in_bounds fb i' s' = in_bounds fb i s"
  using assms by (simp_all add: subpix_shift_def x_offs_def y_offs_def pixel_offs_def in_bounds_def)

lemma new_color_cong:
  "hue i' = hue i \<Longrightarrow> sample_c s' = sample_c s \<Longrightarrow> new_color i' s' = new_color i s"
  by (simp add: new_color_def)

lemma latch_sample_fields [simp]:
  "fsm (latch_sample i s) = fsm s" "sample_intensity (latch_sample i s) = intensity i"
  "px_read (latch_sample i s) = px_read s" "px_sum (latch_sample i s) = px_sum s"
  "bus_sel (latch_sample i s) = bus_sel s" "bus_adr (latch_sample i s) = bus_adr s"
  by (simp_all add: latch_sample_def)

lemma draw_effect:
  assumes "fsm s = LATCH0" "fb_enable i" "in_bounds fb i (latch_sample i s)"
  shows "sys_run fb (s, m) (draw i k j) =
     ((latch_sample i s)\<lparr>bus_sel := 0xF, bus_adr := target_adr fb i s,
         px_read := m (target_adr fb i s),
         px_sum := ucast (pixel_byte (target_shift i s) (m (target_adr fb i s))),
         fsm := LATCH0\<rparr>,
      m (target_adr fb i s :=
           (m (target_adr fb i s) AND NOT (push_bit (target_shift i s) 0xFF)) OR
           push_bit (target_shift i s)
             (Cat (new_color i (latch_sample i s))
               (min 15 (bits_7_4 (pixel_byte (target_shift i s) (m (target_adr fb i s)))
                   + unat (intensity i))))))"
proof -
  define s1 where "s1 = (latch_sample i s)\<lparr>fsm := LATCH1\<rparr>"
  define adr where "adr = target_adr fb i s"
  define sh where "sh = target_shift i s"
  define s2 where "s2 = s1\<lparr>bus_sel := 0xF, bus_adr := adr, fsm := READ\<rparr>"
  define s3 where "s3 = s2\<lparr>px_read := m adr, px_sum := ucast (pixel_byte sh (m adr)), fsm := WAIT\<rparr>"
  define s6 where "s6 = s3\<lparr>fsm := WRITE\<rparr>"
  have f1: "fsm s1 = LATCH1" by (simp add: s1_def)
  have A: "sys_step fb (i\<lparr>valid := True\<rparr>) (s, m) = (s1, m)"
    using assms(1,2)
    by (simp add: sys_step_def step_def fsm_step_def mem_step_def write_req_def bus_we_def
        s1_def)
  have ib: "in_bounds fb (i\<lparr>dat_r := x\<rparr>) s1" for x
    using assms(3) position_cong(5) [of "i\<lparr>dat_r := x\<rparr>" i s1 "latch_sample i s" fb]
    by (simp add: s1_def)
  have po: "pixel_offs fb (i\<lparr>dat_r := x\<rparr>) s1 = pixel_offs fb i (latch_sample i s)" for x
    using position_cong(4) [of "i\<lparr>dat_r := x\<rparr>" i s1 "latch_sample i s" fb]
    by (simp add: s1_def)
  have B: "sys_step fb i (s1, m) = (s2, m)"
    using assms(2) f1 ib po
    by (simp add: sys_step_def step_def fsm_step_def mem_step_def write_req_def bus_we_def
        s2_def adr_def target_adr_def)
  have f2: "fsm s2 = READ" "bus_adr s2 = adr" by (simp_all add: s2_def)
  have C: "sys_run fb (s2, m) (replicate k (i\<lparr>ack := False\<rparr>)) = (s2, m)"
    using f2 assms(2) by (simp add: read_stall)
  have shf: "subpix_shift (i\<lparr>ack := True, dat_r := x\<rparr>) s2 = sh" for x
    using position_cong(1) [of "i\<lparr>ack := True, dat_r := x\<rparr>" i s2 "latch_sample i s"]
    by (simp add: sh_def target_shift_def s2_def s1_def)
  have D: "sys_step fb (i\<lparr>ack := True\<rparr>) (s2, m) = (s3, m)"
    using assms(2) f2 shf
    by (simp add: sys_step_def step_def fsm_step_def mem_step_def write_req_def bus_we_def
        bus_stb_def s3_def pixel_byte_def)
  have f3: "fsm s3 = WAIT" by (simp add: s3_def)
  have E: "sys_run fb (s3, m) [i, i, i] = (s6, m)"
    using assms(2) f3
    by (simp add: sys_run_Nil sys_run_Cons sys_step_def step_def fsm_step_def mem_step_def
        write_req_def bus_we_def s6_def)
  have f6: "fsm s6 = WRITE" "bus_adr s6 = adr" "bus_sel s6 = 0xF" "px_read s6 = m adr"
    by (simp_all add: s6_def s3_def s2_def)
  have H: "sys_run fb (s6, m) (replicate j (i\<lparr>ack := False\<rparr>)) = (s6, m)"
    using f6 assms(2) by (simp add: write_stall)
  have sh6: "subpix_shift (i\<lparr>ack := True\<rparr>) s6 = sh"
    using position_cong(1) [of "i\<lparr>ack := True\<rparr>" i s6 "latch_sample i s"]
    by (simp add: sh_def target_shift_def s6_def s3_def s2_def s1_def)
  have nc6: "new_color (i\<lparr>ack := True\<rparr>) s6 = new_color i (latch_sample i s)"
    using new_color_cong [of "i\<lparr>ack := True\<rparr>" i s6 "latch_sample i s"]
    by (simp add: s6_def s3_def s2_def s1_def)
  have is6: "intensity_sum s6 = bits_7_4 (pixel_byte sh (m adr)) + unat (intensity i)"
    by (simp add: intensity_sum_def s6_def s3_def s2_def s1_def px_sum_4_8_def
      unat_ucast_pixel_byte bits_7_4_arith)
  have dw: "bus_dat_w (i\<lparr>ack := True\<rparr>) s6 =
      (m adr AND NOT (push_bit sh 0xFF)) OR
           push_bit sh (Cat (new_color i (latch_sample i s))
               (min 15 (bits_7_4 (pixel_byte sh (m adr)) + unat (intensity i))))"
    using f6 by (simp add: bus_dat_w_min sh6 nc6 is6)
  have I: "sys_step fb (i\<lparr>ack := True\<rparr>) (s6, m) = (s6\<lparr>fsm := LATCH0\<rparr>,
       m (adr := (m adr AND NOT (push_bit sh 0xFF)) OR
           push_bit sh (Cat (new_color i (latch_sample i s))
               (min 15 (bits_7_4 (pixel_byte sh (m adr)) + unat (intensity i))))))"
    using assms(2) f6 dw
    by (simp add: sys_step_def step_def fsm_step_def mem_step_def write_req_def bus_we_def
        bus_stb_def bus_cyc_def sel_mask_all)
  have fin: "s6\<lparr>fsm := LATCH0\<rparr> = (latch_sample i s)\<lparr>bus_sel := 0xF, bus_adr := adr,
         px_read := m adr, px_sum := ucast (pixel_byte sh (m adr)), fsm := LATCH0\<rparr>"
    by (simp add: s6_def s3_def s2_def s1_def)
  have "sys_run fb (s, m) (draw i k j) = sys_step fb (i\<lparr>ack := True\<rparr>) (s6, m)"
    unfolding draw_def
    by (simp add: sys_run_Cons sys_run_append sys_run_Nil A B C D E [unfolded sys_run_Cons sys_run_Nil] H)
  then show ?thesis
    unfolding I fin adr_def sh_def by simp
qed

lemma bits_7_4_Cat: "v < 16 \<Longrightarrow> bits_7_4 (Cat c v) = v"
proof -
  assume v: "v < 16"
  then have "bits_7_4 (Cat c v) = unat (take_bit 4 (word_of_nat v :: 32 word))"
    by (simp add: bits_7_4_def Cat_high and_15_mask)
  also have "\<dots> = v"
    using v by (simp add: unsigned_take_bit_eq unat_of_nat take_bit_nat_def)
  finally show ?thesis .
qed

lemma bits_3_0_Cat: "v < 16 \<Longrightarrow> bits_3_0 (Cat c v) = unat c"
proof -
  have "unat c < 2 ^ 4" using unsigned_less [of c] by simp
  then have "unat (ucast c :: 32 word) = unat c"
    by (simp add: unsigned_ucast_eq take_bit_nat_def)
  then show "v < 16 \<Longrightarrow> bits_3_0 (Cat c v) = unat c"
    by (simp add: bits_3_0_def Cat_low)
qed

lemma written_byte:
  "v < 16 \<Longrightarrow> pixel_byte (subpix_shift i s)
     ((r AND NOT (push_bit (subpix_shift i s) 0xFF)) OR push_bit (subpix_shift i s) (Cat c v)) = Cat c v"
  unfolding pixel_byte_def by (rule payload_byte) (simp_all add: subpix_shift_le)

lemma latch_sample_indep:
  "sample_x (latch_sample i s) = sample_x (latch_sample i s')"
  "sample_y (latch_sample i s) = sample_y (latch_sample i s')"
  "sample_c (latch_sample i s) = sample_c (latch_sample i s')"
  by (simp_all add: latch_sample_def)

lemma target_indep:
  "target_adr fb i s = target_adr fb i s'" "target_shift i s = target_shift i s'"
  "in_bounds fb i (latch_sample i s) = in_bounds fb i (latch_sample i s')"
  "new_color i (latch_sample i s) = new_color i (latch_sample i s')"
proof -
  note sx = latch_sample_indep(1) [of i s s'] and sy = latch_sample_indep(2) [of i s s']
  show "target_adr fb i s = target_adr fb i s'"
    unfolding target_adr_def using position_cong(4) [OF refl sx sy] by simp
  show "target_shift i s = target_shift i s'"
    unfolding target_shift_def by (rule position_cong(1) [OF refl sx sy])
  show "in_bounds fb i (latch_sample i s) = in_bounds fb i (latch_sample i s')"
    by (rule position_cong(5) [OF refl sx sy])
  show "new_color i (latch_sample i s) = new_color i (latch_sample i s')"
    by (rule new_color_cong [OF refl latch_sample_indep(3)])
qed

lemma min_acc: "min (15::nat) (min 15 a + b) = min 15 (a + b)"
  by simp

lemma draws_intensity:
  assumes "fsm s = LATCH0" "fb_enable i" "in_bounds fb i (latch_sample i s)"
  shows "fsm (fst (sys_run fb (s, m) (draws i ds))) = LATCH0 \<and>
    bits_7_4 (pixel_byte (target_shift i s) (snd (sys_run fb (s, m) (draws i ds)) (target_adr fb i s)))
      = min 15 (bits_7_4 (pixel_byte (target_shift i s) (m (target_adr fb i s)))
                 + length ds * unat (intensity i))"
  using assms
proof (induction ds arbitrary: s m)
  case Nil
  have "bits_7_4 b \<le> 15" for b
    using pos_mod_bound [of 16 "int (unat b div 16)"] by (simp add: bits_7_4_arith)
  from this [of "pixel_byte (target_shift i s) (m (target_adr fb i s))"]
  show ?case using Nil by (simp add: sys_run_Nil min_def)
next
  case (Cons d ds)
  obtain k j where d: "d = (k, j)" by (cases d)
  let ?adr = "target_adr fb i s" and ?sh = "target_shift i s"
  let ?v = "min 15 (bits_7_4 (pixel_byte ?sh (m ?adr)) + unat (intensity i))"
  let ?s' = "(latch_sample i s)\<lparr>bus_sel := 0xF, bus_adr := ?adr,
         px_read := m ?adr, px_sum := ucast (pixel_byte ?sh (m ?adr)), fsm := LATCH0\<rparr>"
  let ?m' = "m (?adr := (m ?adr AND NOT (push_bit ?sh 0xFF)) OR
           push_bit ?sh (Cat (new_color i (latch_sample i s)) ?v))"
  have run: "sys_run fb (s, m) (draws i (d # ds)) = sys_run fb (?s', ?m') (draws i ds)"
    using draw_effect [OF Cons.prems, of m k j] by (simp add: d sys_run_append)
  have s': "fsm ?s' = LATCH0" by simp
  have ib: "in_bounds fb i (latch_sample i ?s')"
    using Cons.prems(3) target_indep(3) [of fb i ?s' s] by simp
  have adr: "target_adr fb i ?s' = ?adr" and sh: "target_shift i ?s' = ?sh"
    using target_indep(1) [of fb i ?s' s] target_indep(2) [of i ?s' s] by simp_all
  have v: "?v < 16" by simp
  have px: "bits_7_4 (pixel_byte ?sh (?m' ?adr)) = ?v"
    using written_byte [OF v, of i "latch_sample i s"] bits_7_4_Cat [OF v]
    by (simp add: target_shift_def)
  define R where "R = sys_run fb (?s', ?m') (draws i ds)"
  define b0 where "b0 = bits_7_4 (pixel_byte ?sh (m ?adr))"
  define u where "u = unat (intensity i)"
  have IH: "fsm (fst R) = LATCH0 \<and>
      bits_7_4 (pixel_byte ?sh (snd R ?adr)) = min 15 (min 15 (b0 + u) + length ds * u)"
    using Cons.IH [OF s' Cons.prems(2) ib, of ?m'] unfolding adr sh px R_def b0_def u_def .
  have "min 15 (min 15 (b0 + u) + length ds * u) = min 15 (b0 + length (d # ds) * u)"
    by simp
  moreover have "sys_run fb (s, m) (draws i (d # ds)) = R"
    unfolding R_def by (rule run)
  ultimately show ?case
    using IH unfolding b0_def u_def by simp
qed

subsection \<open>Accumulation of intensity\<close>

lemma written_intensity:
  assumes "fsm s = WRITE"
  shows "bits_7_4 (pixel_byte (subpix_shift i s) (bus_dat_w i s)) = min 15 (intensity_sum s)"
proof -
  have v: "min 15 (intensity_sum s) < 16" by simp
  show ?thesis
    unfolding bus_dat_w_min [OF assms] written_byte [OF v] by (rule bits_7_4_Cat [OF v])
qed

lemma scenario_in_bounds: "in_bounds scenario_fb scenario_inputs (latch_sample scenario_inputs idle_state)"
  by (simp add: in_bounds_def x_offs_def y_offs_def fb_hwords_def latch_sample_def scenario_fb_def scenario_inputs_def idle_state_def)

lemma scenario_target: "target_adr scenario_fb scenario_inputs idle_state = 264" "target_shift scenario_inputs idle_state = 0"
  by (simp_all add: target_adr_def target_shift_def pixel_offs_def subpix_shift_def x_offs_def y_offs_def fb_hwords_def latch_sample_def scenario_fb_def scenario_inputs_def idle_state_def)

subsection \<open>Layout of the written byte\<close>

lemma written_others:
  assumes "fsm s = WRITE" "\<not> (subpix_shift i s \<le> n \<and> n < subpix_shift i s + 8)"
  shows "bit (bus_dat_w i s) n = bit (px_read s) n"
  unfolding bus_dat_w_min [OF assms(1)] by (rule payload_others) (use assms(2) in simp_all)

lemma other_pixels:
  assumes "sh \<in> {0, 8, 16, 24}" "sh' \<in> {0, 8, 16, 24}" "sh' \<noteq> sh"
    and "\<And>n. \<not> (sh \<le> n \<and> n < sh + 8) \<Longrightarrow> bit w n = bit r n"
  shows "pixel_byte sh' w = pixel_byte sh' r"
proof (rule bit_word_eqI)
  fix n assume "n < LENGTH(32)"
  have "n < 8 \<Longrightarrow> \<not> (sh \<le> sh' + n \<and> sh' + n < sh + 8)"
    using assms(1-3) by auto
  then show "bit (pixel_byte sh' w) n = bit (pixel_byte sh' r) n"
    using assms(4) [of "sh' + n"]
    by (auto simp: pixel_byte_def bit_simps bit_255_int)
qed

lemma unat_new_color:
  "unat (new_color i s) = nat ((sint (sample_c s) div 2 ^ 10 + uint (hue i)) mod 2 ^ 4)"
proof -
  have "uint (new_color i s) = (sint (sample_c s) div 2 ^ 10 + uint (hue i)) mod 2 ^ 4"
    unfolding new_color_def by (simp only: uint_word_of_int len_num1 len_bit0 mult_2 one_add_one numeral_Bit0 [symmetric])
  then show ?thesis
    by (simp only: unat_eq_nat_uint)
qed

lemma written_colour:
  assumes "fsm s = WRITE"
  shows "bits_3_0 (pixel_byte (subpix_shift i s) (bus_dat_w i s)) = unat (new_color i s)"
proof -
  have v: "min 15 (intensity_sum s) < 16" by simp
  show ?thesis
    unfolding bus_dat_w_min [OF assms] written_byte [OF v] by (rule bits_3_0_Cat [OF v])
qed

lemma draw_memory:
  assumes "fsm s = LATCH0" "fb_enable i" "in_bounds fb i (latch_sample i s)"
  shows "snd (sys_run fb (s, m) (draw i k j)) =
      m (target_adr fb i s :=
           (m (target_adr fb i s) AND NOT (push_bit (target_shift i s) 0xFF)) OR
           push_bit (target_shift i s)
             (Cat (new_color i (latch_sample i s))
               (min 15 (bits_7_4 (pixel_byte (target_shift i s) (m (target_adr fb i s)))
                   + unat (intensity i)))))"
  unfolding draw_effect [OF assms] by simp

text \<open>
  Claim C5. A write payload is the word read before, with the byte at the shift masked
  out and the new packed byte put in at the same shift: every bit outside that byte, and
  so each of the three other pixels of the word, is the bit of the word read. A complete
  draw changes the memory at the addressed word only, and there only inside that byte.
\<close>

theorem write_replaces_one_byte:
  "(fsm s = WRITE \<longrightarrow>
      bus_dat_w i s =
        (px_read s AND NOT (push_bit (subpix_shift i s) 0xFF)) OR
        push_bit (subpix_shift i s) (Cat (new_color i s) (min 15 (intensity_sum s))) \<and>
      (\<forall>n. \<not> (subpix_shift i s \<le> n \<and> n < subpix_shift i s + 8) \<longrightarrow>
         bit (bus_dat_w i s) n = bit (px_read s) n) \<and>
      (\<forall>sh \<in> {0, 8, 16, 24}. sh \<noteq> subpix_shift i s \<longrightarrow>
         pixel_byte sh (bus_dat_w i s) = pixel_byte sh (px_read s))) \<and>
   (fsm s0 = LATCH0 \<and> fb_enable j \<and> in_bounds fb j (latch_sample j s0) \<longrightarrow>
      (\<forall>a. a \<noteq> target_adr fb j s0 \<longrightarrow> snd (sys_run fb (s0, m) (draw j k l)) a = m a) \<and>
      (\<forall>n. \<not> (target_shift j s0 \<le> n \<and> n < target_shift j s0 + 8) \<longrightarrow>
         bit (snd (sys_run fb (s0, m) (draw j k l)) (target_adr fb j s0)) n =
         bit (m (target_adr fb j s0)) n) \<and>
      (\<forall>sh \<in> {0, 8, 16, 24}. sh \<noteq> target_shift j s0 \<longrightarrow>
         pixel_byte sh (snd (sys_run fb (s0, m) (draw j k l)) (target_adr fb j s0)) =
         pixel_byte sh (m (target_adr fb j s0))))"
proof (intro conjI impI allI ballI)
  assume w: "fsm s = WRITE"
  show "bus_dat_w i s =
        (px_read s AND NOT (push_bit (subpix_shift i s) 0xFF)) OR
        push_bit (subpix_shift i s) (Cat (new_color i s) (min 15 (intensity_sum s)))"
    by (rule bus_dat_w_min [OF w])
  show "bit (bus_dat_w i s) n = bit (px_read s) n"
    if "\<not> (subpix_shift i s \<le> n \<and> n < subpix_shift i s + 8)" for n
    by (rule written_others [OF w that])
  show "pixel_byte sh (bus_dat_w i s) = pixel_byte sh (px_read s)"
    if "sh \<in> {0, 8, 16, 24}" "sh \<noteq> subpix_shift i s" for sh
    by (rule other_pixels [OF subpix_shift_cases that]) (rule written_others [OF w])
next
  assume a: "fsm s0 = LATCH0 \<and> fb_enable j \<and> in_bounds fb j (latch_sample j s0)"
  then have mem: "snd (sys_run fb (s0, m) (draw j k l)) =
      m (target_adr fb j s0 :=
           (m (target_adr fb j s0) AND NOT (push_bit (target_shift j s0) 0xFF)) OR
           push_bit (target_shift j s0)
             (Cat (new_color j (latch_sample j s0))
               (min 15 (bits_7_4 (pixel_byte (target_shift j s0) (m (target_adr fb j s0)))
                   + unat (intensity j)))))"
    using draw_memory [of s0 j fb m k l] by simp
  show "snd (sys_run fb (s0, m) (draw j k l)) a = m a" if "a \<noteq> target_adr fb j s0" for a
    unfolding mem using that by simp
  have bits: "bit (snd (sys_run fb (s0, m) (draw j k l)) (target_adr fb j s0)) n =
         bit (m (target_adr fb j s0)) n"
    if "\<not> (target_shift j s0 \<le> n \<and> n < target_shift j s0 + 8)" for n
    unfolding mem fun_upd_same by (rule payload_others) (use that in simp_all)
  show "bit (snd (sys_run fb (s0, m) (draw j k l)) (target_adr fb j s0)) n =
         bit (m (target_adr fb j s0)) n"
    if "\<not> (target_shift j s0 \<le> n \<and> n < target_shift j s0 + 8)" for n
    by (rule bits [OF that])
  show "pixel_byte sh (snd (sys_run fb (s0, m) (draw j k l)) (target_adr fb j s0)) =
         pixel_byte sh (m (target_adr fb j s0))"
    if "sh \<in> {0, 8, 16, 24}" "sh \<noteq> target_shift j s0" for sh
  proof (rule other_pixels [OF _ that])
    show "target_shift j s0 \<in> {0, 8, 16, 24}"
      unfolding target_shift_def by (rule subpix_shift_cases)
  qed (rule bits)
qed

lemma write_state_fields:
  "fsm write_state = WRITE" "subpix_shift scenario_inputs write_state = 8"
  "px_read write_state = 0x11223A44" "intensity_sum write_state = 11"
  "new_color scenario_inputs write_state = 5"
  by (simp_all add: write_state_def read_state_def reset_state_def subpix_shift_def
      scenario_inputs_def intensity_sum_def px_sum_4_8_def new_color_def)

lemma write_state_payload: "bus_dat_w scenario_inputs write_state = 0x1122B544"
  unfolding bus_dat_w_min [OF write_state_fields(1)] write_state_fields
  by (simp add: Cat_def)

lemma read_to_write:
  "step scenario_fb scenario_inputs (step scenario_fb scenario_inputs
     (step scenario_fb scenario_inputs (step scenario_fb scenario_inputs read_state))) = write_state"
  by (simp add: step_def fsm_step_def scenario_inputs_def read_state_def write_state_def
      reset_state_def bus_stb_def subpix_shift_def)

lemma scenario_facts:
  "fsm idle_state = LATCH0" "fb_enable scenario_inputs"
  "hue scenario_inputs = 5" "payload3 scenario_inputs = 0" "intensity scenario_inputs = 1"
  by (simp_all add: idle_state_def scenario_inputs_def)

theorem write_replaces_one_byte_witness:
  "fsm write_state = WRITE \<and>
   bus_dat_w scenario_inputs write_state = 0x1122B544 \<and>
   px_read write_state = 0x11223A44 \<and>
   subpix_shift scenario_inputs write_state = 8 \<and>
   bit (bus_dat_w scenario_inputs write_state) 16 = bit (px_read write_state) 16 \<and>
   pixel_byte 0 (bus_dat_w scenario_inputs write_state) = pixel_byte 0 (px_read write_state) \<and>
   fsm idle_state = LATCH0 \<and> fb_enable scenario_inputs \<and>
   in_bounds scenario_fb scenario_inputs (latch_sample scenario_inputs idle_state) \<and>
   target_adr scenario_fb scenario_inputs idle_state = 264 \<and>
   target_shift scenario_inputs idle_state = 0 \<and>
   snd (sys_run scenario_fb (idle_state, \<lambda>a. 0x11223A44) (draw scenario_inputs 1 2)) 265 = 0x11223A44 \<and>
   bit (snd (sys_run scenario_fb (idle_state, \<lambda>a. 0x11223A44) (draw scenario_inputs 1 2)) 264) 8 =
     bit (0x11223A44 :: 32 word) 8 \<and>
   pixel_byte 8 (snd (sys_run scenario_fb (idle_state, \<lambda>a. 0x11223A44) (draw scenario_inputs 1 2)) 264) =
     pixel_byte 8 0x11223A44"
  using write_replaces_one_byte [where s = write_state and i = scenario_inputs
      and ?s0.0 = idle_state and j = scenario_inputs and fb = scenario_fb
      and m = "\<lambda>a. 0x11223A44" and k = 1 and l = 2]
    write_state_fields write_state_payload scenario_facts scenario_in_bounds scenario_target
  by simp

text \<open>
  Claim C9. The colour nibble of the written byte is the latched colour lane shifted
  right arithmetically by 10, plus the hue of the cycle, cut to four bits. It does not
  depend on the word that was read (no blending), whether the intensity saturates or not;
  after a complete draw the pixel in memory carries that colour.
\<close>

theorem colour_is_lane_plus_hue:
  "(fsm s = WRITE \<longrightarrow>
      bits_3_0 (pixel_byte (subpix_shift i s) (bus_dat_w i s)) =
        nat ((sint (sample_c s) div 2 ^ 10 + uint (hue i)) mod 2 ^ 4) \<and>
      bits_3_0 (pixel_byte (subpix_shift i s) (bus_dat_w i (s\<lparr>px_read := r, px_sum := q\<rparr>))) =
        nat ((sint (sample_c s) div 2 ^ 10 + uint (hue i)) mod 2 ^ 4)) \<and>
   (fsm s0 = LATCH0 \<and> fb_enable j \<and> in_bounds fb j (latch_sample j s0) \<longrightarrow>
      bits_3_0 (pixel_byte (target_shift j s0)
          (snd (sys_run fb (s0, m) (draw j k l)) (target_adr fb j s0))) =
        nat ((sint (payload3 j) div 2 ^ 10 + uint (hue j)) mod 2 ^ 4))"
proof (intro conjI impI)
  assume w: "fsm s = WRITE"
  show "bits_3_0 (pixel_byte (subpix_shift i s) (bus_dat_w i s)) =
        nat ((sint (sample_c s) div 2 ^ 10 + uint (hue i)) mod 2 ^ 4)"
    using written_colour [OF w, of i] by (simp only: unat_new_color)
  let ?s = "s\<lparr>px_read := r, px_sum := q\<rparr>"
  have w': "fsm ?s = WRITE" using w by simp
  have sh: "subpix_shift i ?s = subpix_shift i s"
    by (rule position_cong(1)) simp_all
  have "bits_3_0 (pixel_byte (subpix_shift i ?s) (bus_dat_w i ?s)) = unat (new_color i ?s)"
    by (rule written_colour [OF w'])
  then show "bits_3_0 (pixel_byte (subpix_shift i s) (bus_dat_w i ?s)) =
        nat ((sint (sample_c s) div 2 ^ 10 + uint (hue i)) mod 2 ^ 4)"
    unfolding sh unat_new_color by simp
next
  assume a: "fsm s0 = LATCH0 \<and> fb_enable j \<and> in_bounds fb j (latch_sample j s0)"
  let ?v = "min 15 (bits_7_4 (pixel_byte (target_shift j s0) (m (target_adr fb j s0)))
                   + unat (intensity j))"
  have v: "?v < 16" by simp
  have mem: "snd (sys_run fb (s0, m) (draw j k l)) (target_adr fb j s0) =
           (m (target_adr fb j s0) AND NOT (push_bit (target_shift j s0) 0xFF)) OR
           push_bit (target_shift j s0) (Cat (new_color j (latch_sample j s0)) ?v)"
    using a draw_memory [of s0 j fb m k l] by simp
  have c: "sample_c (latch_sample j s0) = payload3 j" by (simp add: latch_sample_def)
  have "bits_3_0 (pixel_byte (target_shift j s0)
          (snd (sys_run fb (s0, m) (draw j k l)) (target_adr fb j s0))) =
        unat (new_color j (latch_sample j s0))"
    unfolding mem using written_byte [OF v, of j "latch_sample j s0"] bits_3_0_Cat [OF v]
    by (simp only: target_shift_def)
  then show "bits_3_0 (pixel_byte (target_shift j s0)
          (snd (sys_run fb (s0, m) (draw j k l)) (target_adr fb j s0))) =
        nat ((sint (payload3 j) div 2 ^ 10 + uint (hue j)) mod 2 ^ 4)"
    unfolding unat_new_color c .
qed

theorem colour_is_lane_plus_hue_witness:
  "fsm write_state = WRITE \<and>
   bits_3_0 (pixel_byte (subpix_shift scenario_inputs write_state)
      (bus_dat_w scenario_inputs write_state)) = 5 \<and>
   bits_3_0 (pixel_byte (subpix_shift scenario_inputs write_state)
      (bus_dat_w scenario_inputs (write_state\<lparr>px_read := 0xFFFFFFFF, px_sum := 0xFF\<rparr>))) = 5 \<and>
   fsm idle_state = LATCH0 \<and> fb_enable scenario_inputs \<and>
   in_bounds scenario_fb scenario_inputs (latch_sample scenario_inputs idle_state) \<and>
   bits_3_0 (pixel_byte (target_shift scenario_inputs idle_state)
      (snd (sys_run scenario_fb (idle_state, \<lambda>a. 0xFFFFFFFF) (draw scenario_inputs 0 0))
         (target_adr scenario_fb scenario_inputs idle_state))) = 5"
proof -
  have c: "sample_c write_state = 0"
    by (simp add: write_state_def read_state_def reset_state_def)
  show ?thesis
    using colour_is_lane_plus_hue [where s = write_state and i = scenario_inputs
        and r = "0xFFFFFFFF" and q = "0xFF" and ?s0.0 = idle_state and j = scenario_inputs
        and fb = scenario_fb and m = "\<lambda>a. 0xFFFFFFFF" and k = 0 and l = 0]
      write_state_fields(1) scenario_facts scenario_in_bounds c
    by simp
qed

lemma read_capture:
  assumes "fsm s = READ" "ack i" "fb_enable i"
  shows "step fb i s = s\<lparr>px_read := dat_r i,
      px_sum := ucast (pixel_byte (subpix_shift i s) (dat_r i)), fsm := WAIT\<rparr>"
  using assms by (simp add: step_def fsm_step_def bus_stb_def pixel_byte_def)

text \<open>
  Claim C6, amended. In a pixel byte the intensity is the upper nibble (bits 7 to 4) and
  the colour the lower nibble (bits 3 to 0): the engine takes the stored intensity from
  bits 7 to 4 of the byte it extracts from the word read, and writes the new intensity to
  bits 7 to 4 and the new colour to bits 3 to 0. The byte of a pixel lies at shift 0, 8, 16
  or 24 of the word, least significant byte first.
\<close>

theorem intensity_high_colour_low:
  "(fsm s = READ \<and> ack i \<and> fb_enable i \<longrightarrow>
      px_sum_4_8 (step fb i s) = bits_7_4 (pixel_byte (subpix_shift i s) (dat_r i))) \<and>
   (fsm s = WRITE \<longrightarrow>
      bits_7_4 (pixel_byte (subpix_shift i s) (bus_dat_w i s)) =
        min 15 (px_sum_4_8 s + unat (sample_intensity s)) \<and>
      bits_3_0 (pixel_byte (subpix_shift i s) (bus_dat_w i s)) = unat (new_color i s)) \<and>
   subpix_shift i s \<in> {0, 8, 16, 24} \<and>
   unat (pixel_byte (subpix_shift i s) w) = unat w div 2 ^ subpix_shift i s mod 2 ^ 8 \<and>
   bits_7_4 b = unat b div 2 ^ 4 mod 2 ^ 4 \<and> bits_3_0 b = unat b mod 2 ^ 4"
proof (intro conjI impI)
  assume "fsm s = READ \<and> ack i \<and> fb_enable i"
  then have "step fb i s = s\<lparr>px_read := dat_r i,
      px_sum := ucast (pixel_byte (subpix_shift i s) (dat_r i)), fsm := WAIT\<rparr>"
    using read_capture [of s i fb] by simp
  then show "px_sum_4_8 (step fb i s) = bits_7_4 (pixel_byte (subpix_shift i s) (dat_r i))"
    by (simp add: px_sum_4_8_def unat_ucast_pixel_byte bits_7_4_arith)
next
  assume w: "fsm s = WRITE"
  show "bits_7_4 (pixel_byte (subpix_shift i s) (bus_dat_w i s)) =
        min 15 (px_sum_4_8 s + unat (sample_intensity s))"
    using written_intensity [OF w, of i] by (simp add: intensity_sum_def)
  show "bits_3_0 (pixel_byte (subpix_shift i s) (bus_dat_w i s)) = unat (new_color i s)"
    by (rule written_colour [OF w])
next
  show "subpix_shift i s \<in> {0, 8, 16, 24}" by (rule subpix_shift_cases)
  show "unat (pixel_byte (subpix_shift i s) w) = unat w div 2 ^ subpix_shift i s mod 2 ^ 8"
    by (simp add: unat_pixel_byte)
  show "bits_7_4 b = unat b div 2 ^ 4 mod 2 ^ 4" by (simp add: bits_7_4_arith)
  show "bits_3_0 b = unat b mod 2 ^ 4" by (simp add: bits_3_0_arith)
qed

lemma read_state_fields:
  "fsm read_state = READ" "subpix_shift scenario_inputs read_state = 8"
  "ack scenario_inputs" "dat_r scenario_inputs = 0x11223A44"
  by (simp_all add: read_state_def reset_state_def subpix_shift_def scenario_inputs_def)

lemma byte_0x3A: "pixel_byte 8 0x11223A44 = 0x3A"
  by (simp add: pixel_byte_def drop_bit_eq_div)

lemma write_state_byte:
  "pixel_byte 8 (bus_dat_w scenario_inputs write_state) = 0xB5"
  unfolding write_state_payload by (simp add: pixel_byte_def drop_bit_eq_div)

lemma nibbles: "bits_7_4 0xB5 = 11" "bits_3_0 0xB5 = 5" "bits_7_4 0x3A = 3" "bits_3_0 0x3A = 10"
  by (simp_all add: bits_7_4_arith bits_3_0_arith)

text \<open>
  Claim C6, as stated, fails. The engine reads for the point (1, 0) with step 8 and the
  memory answers \<open>0x11223A44\<close>, whose byte at shift 8 is \<open>0x3A\<close>. Four cycles later
  it writes the byte \<open>0xB5\<close> there: bits 7 to 4 hold 11 = 3 + 8, not the colour 5, and
  bits 3 to 0 hold the colour 5, not min 15 (10 + 8).
\<close>

theorem colour_high_intensity_low_counterexample:
  "step scenario_fb scenario_inputs (step scenario_fb scenario_inputs
     (step scenario_fb scenario_inputs (step scenario_fb scenario_inputs read_state))) = write_state \<and>
   pixel_byte 8 (dat_r scenario_inputs) = 0x3A \<and>
   unat (sample_intensity write_state) = 8 \<and>
   unat (new_color scenario_inputs write_state) = 5 \<and>
   pixel_byte (subpix_shift scenario_inputs write_state) (bus_dat_w scenario_inputs write_state) = 0xB5 \<and>
   bits_7_4 (pixel_byte (subpix_shift scenario_inputs write_state)
       (bus_dat_w scenario_inputs write_state)) \<noteq> unat (new_color scenario_inputs write_state) \<and>
   bits_3_0 (pixel_byte (subpix_shift scenario_inputs write_state)
       (bus_dat_w scenario_inputs write_state)) \<noteq>
     min 15 (bits_3_0 (pixel_byte (subpix_shift scenario_inputs read_state) (dat_r scenario_inputs))
             + unat (sample_intensity write_state))"
  using read_to_write
  by (simp add: write_state_fields read_state_fields byte_0x3A write_state_byte nibbles)
    (simp add: write_state_def read_state_def)

theorem intensity_high_colour_low_witness:
  "fsm read_state = READ \<and> ack scenario_inputs \<and> fb_enable scenario_inputs \<and>
   px_sum_4_8 (step scenario_fb scenario_inputs read_state) = 3 \<and>
   fsm write_state = WRITE \<and>
   bits_7_4 (pixel_byte (subpix_shift scenario_inputs write_state) (bus_dat_w scenario_inputs write_state)) = 11 \<and>
   bits_3_0 (pixel_byte (subpix_shift scenario_inputs write_state) (bus_dat_w scenario_inputs write_state)) = 5"
  using intensity_high_colour_low [where s = read_state and i = scenario_inputs
      and fb = scenario_fb and w = 0 and b = 0]
    intensity_high_colour_low [where s = write_state and i = scenario_inputs
      and fb = scenario_fb and w = 0 and b = 0]
    read_state_fields write_state_fields scenario_facts byte_0x3A nibbles
  by (simp add: intensity_sum_def)

subsection \<open>Points outside the framebuffer\<close>

lemma capture_step:
  assumes "fsm s = LATCH0" "valid i" "fb_enable i"
  shows "sys_step fb i (s, m) = ((latch_sample i s)\<lparr>fsm := LATCH1\<rparr>, m)"
  using assms
  by (simp add: sys_step_def step_def fsm_step_def mem_step_def write_req_def bus_we_def)

lemma reject_step:
  assumes "fsm s = LATCH1" "fb_enable i" "\<not> in_bounds fb i s"
  shows "sys_step fb i (s, m) = (s\<lparr>fsm := LATCH0\<rparr>, m)"
proof -
  have "in_bounds fb (i\<lparr>dat_r := x\<rparr>) s = in_bounds fb i s" for x
    by (rule position_cong(5)) simp_all
  then show ?thesis
    using assms
    by (simp add: sys_step_def step_def fsm_step_def mem_step_def write_req_def bus_we_def)
qed

text \<open>
  Claim C2. A latched point whose horizontal word index is at least the width in words,
  or whose vertical index is at least the active height, is dropped: neither in the cycle
  that captures it nor in the cycle of the bounds check is a strobe or a cycle asserted,
  the memory is what it was, and the cycle after the bounds check the engine is in
  \<open>LATCH0\<close> again with \<open>ready\<close> asserted. The engine has no error output. The
  framebuffer is enabled throughout, otherwise the reset takes the engine to \<open>OFF\<close>.
\<close>

theorem out_of_bounds_point_is_dropped:
  "(fsm s0 = LATCH0 \<and> valid i0 \<and> fb_enable i0 \<longrightarrow>
      \<not> bus_stb s0 \<and> \<not> bus_cyc s0 \<and>
      sys_step fb i0 (s0, m) = ((latch_sample i0 s0)\<lparr>fsm := LATCH1\<rparr>, m)) \<and>
   (fsm s = LATCH1 \<and> fb_enable i \<and>
    (fb_hwords fb \<le> unat (x_offs fb i s) \<or> v_active fb \<le> unat (y_offs fb i s)) \<longrightarrow>
      \<not> bus_stb s \<and> \<not> bus_cyc s \<and> \<not> read_req s \<and> \<not> write_req s \<and>
      sys_step fb i (s, m) = (s\<lparr>fsm := LATCH0\<rparr>, m) \<and>
      ready (fst (sys_step fb i (s, m))) \<and>
      \<not> bus_stb (fst (sys_step fb i (s, m))) \<and> \<not> bus_cyc (fst (sys_step fb i (s, m))))"
proof (intro conjI impI)
  assume a: "fsm s0 = LATCH0 \<and> valid i0 \<and> fb_enable i0"
  then show "\<not> bus_stb s0" "\<not> bus_cyc s0" by (simp_all add: bus_stb_def bus_cyc_def)
  show "sys_step fb i0 (s0, m) = ((latch_sample i0 s0)\<lparr>fsm := LATCH1\<rparr>, m)"
    using a by (simp add: capture_step)
next
  assume a: "fsm s = LATCH1 \<and> fb_enable i \<and>
    (fb_hwords fb \<le> unat (x_offs fb i s) \<or> v_active fb \<le> unat (y_offs fb i s))"
  then have nb: "\<not> in_bounds fb i s" by (auto simp: in_bounds_def)
  have st: "sys_step fb i (s, m) = (s\<lparr>fsm := LATCH0\<rparr>, m)"
    using a nb by (simp add: reject_step)
  show "\<not> bus_stb s" "\<not> bus_cyc s" "\<not> read_req s" "\<not> write_req s"
    using a by (simp_all add: bus_stb_def bus_cyc_def read_req_def write_req_def)
  show "sys_step fb i (s, m) = (s\<lparr>fsm := LATCH0\<rparr>, m)" by (rule st)
  show "ready (fst (sys_step fb i (s, m)))" "\<not> bus_stb (fst (sys_step fb i (s, m)))"
    "\<not> bus_cyc (fst (sys_step fb i (s, m)))"
    unfolding st by (simp_all add: ready_def bus_stb_def bus_cyc_def)
qed

lemma far_right_facts:
  "valid far_right" "fb_enable far_right" "fsm far_right_latched = LATCH1"
  "unat (x_offs scenario_fb far_right far_right_latched) = 33" "fb_hwords scenario_fb = 16"
  by (simp_all add: far_right_def far_right_latched_def scenario_inputs_def latch_sample_def
      x_offs_def fb_hwords_def scenario_fb_def)

theorem out_of_bounds_point_is_dropped_witness:
  "fsm idle_state = LATCH0 \<and> valid far_right \<and> fb_enable far_right \<and>
   fb_hwords scenario_fb \<le> unat (x_offs scenario_fb far_right far_right_latched) \<and>
   \<not> bus_stb idle_state \<and> \<not> bus_stb far_right_latched \<and>
   sys_step scenario_fb far_right (idle_state, \<lambda>a. 7) = (far_right_latched, \<lambda>a. 7) \<and>
   sys_step scenario_fb far_right (far_right_latched, \<lambda>a. 7) =
     (far_right_latched\<lparr>fsm := LATCH0\<rparr>, \<lambda>a. 7) \<and>
   ready (fst (sys_step scenario_fb far_right (far_right_latched, \<lambda>a. 7)))"
  using out_of_bounds_point_is_dropped [where ?s0.0 = idle_state and ?i0.0 = far_right
      and fb = scenario_fb and m = "\<lambda>a. 7" and s = far_right_latched and i = far_right]
    far_right_facts scenario_facts(1)
  by (simp add: far_right_latched_def ready_def)

subsection \<open>From coordinates to the word address\<close>

lemma uint_16_word_of_int: "uint (word_of_int k :: 16 word) = k mod 2 ^ 16"
  by (simp add: uint_word_of_int)

lemma unat_32_word_of_nat: "unat (word_of_nat n :: 32 word) = n mod 2 ^ 32"
  by (simp add: unat_of_nat)

lemma sint_16_range: "- 32768 \<le> sint (x :: 16 word) \<and> sint x < 32768"
  using sint_ge [of x] sint_lt [of x] by simp

lemma mod_65536_neg:
  assumes "- 65536 \<le> (k::int)" "k < 0"
  shows "k mod 65536 = k + 65536"
proof -
  have "(k + 65536) mod 65536 = k + 65536"
    using assms by (intro mod_pos_pos_trivial) simp_all
  then show ?thesis by simp
qed

lemma wrap_free_x:
  assumes "(h + a div 4) mod 65536 < w" "w \<le> 32768" "0 \<le> h" "h \<le> w"
    "- 32768 \<le> (a::int)" "a \<le> 32768"
  shows "(h + a div 4) mod 65536 = h + a div 4"
proof -
  have lo: "- 8192 \<le> a div 4" and hi: "a div 4 \<le> 8192" using assms(5,6) by linarith+
  have "0 \<le> h + a div 4"
  proof (rule ccontr)
    assume "\<not> 0 \<le> h + a div 4"
    then have "(h + a div 4) mod 65536 = h + a div 4 + 65536"
      using lo assms(3) by (simp add: mod_65536_neg)
    then show False using assms(1,2,3) lo by linarith
  qed
  moreover have "h + a div 4 < 65536" using assms(2,4) hi by linarith
  ultimately show ?thesis by simp
qed

lemma wrap_free_y:
  assumes "(a + v) mod 65536 < w" "w \<le> 32768" "0 \<le> v" "v \<le> w"
    "- 32768 \<le> (a::int)" "a < 32768"
  shows "(a + v) mod 65536 = a + v"
proof -
  have "0 \<le> a + v"
  proof (rule ccontr)
    assume "\<not> 0 \<le> a + v"
    then have "(a + v) mod 65536 = a + v + 65536"
      using assms(3,5) by (simp add: mod_65536_neg)
    then show False using assms(1,2,3,5) by linarith
  qed
  moreover have "a + v < 65536" using assms(2,4,6) by linarith
  ultimately show ?thesis by simp
qed

lemma uint_x_offs:
  "uint (x_offs fb i s) =
     (int (fb_hwords fb div 2) +
      (if rotate_left i then (- sint (sample_y s)) div 4 else sint (sample_x s) div 4)) mod 2 ^ 16"
  by (cases "rotate_left i") (simp_all only: x_offs_def if_True if_False uint_16_word_of_int)

lemma uint_y_offs:
  "uint (y_offs fb i s) =
     ((if rotate_left i then sint (sample_x s) else sint (sample_y s)) + int (v_active fb div 2))
       mod 2 ^ 16"
  by (cases "rotate_left i") (simp_all only: y_offs_def if_True if_False uint_16_word_of_int)

lemma in_bounds_exact:
  assumes "in_bounds fb i s" "fb_hwords fb \<le> 2 ^ 15" "v_active fb \<le> 2 ^ 15"
  shows "uint (x_offs fb i s) = int (fb_hwords fb div 2) +
       (if rotate_left i then (- sint (sample_y s)) div 4 else sint (sample_x s) div 4)"
    and "uint (y_offs fb i s) =
       (if rotate_left i then sint (sample_x s) else sint (sample_y s)) + int (v_active fb div 2)"
proof -
  let ?a = "if rotate_left i then - sint (sample_y s) else sint (sample_x s)"
  let ?b = "if rotate_left i then sint (sample_x s) else sint (sample_y s)"
  have xb: "uint (x_offs fb i s) < int (fb_hwords fb)"
    and yb: "uint (y_offs fb i s) < int (v_active fb)"
  proof -
    have u: "uint w = int (unat w)" for w :: "16 word" by (rule uint_nat)
    show "uint (x_offs fb i s) < int (fb_hwords fb)" "uint (y_offs fb i s) < int (v_active fb)"
      using assms(1) unfolding u in_bounds_def by (simp_all only: of_nat_less_iff)
  qed
  have ra: "- 32768 \<le> ?a" "?a \<le> 32768" and rb: "- 32768 \<le> ?b" "?b < 32768"
    using sint_16_range [of "sample_x s"] sint_16_range [of "sample_y s"] by auto
  have x: "uint (x_offs fb i s) = (int (fb_hwords fb div 2) + ?a div 4) mod 65536"
    by (simp add: uint_x_offs)
  have y: "uint (y_offs fb i s) = (?b + int (v_active fb div 2)) mod 65536"
    by (simp add: uint_y_offs)
  have "(int (fb_hwords fb div 2) + ?a div 4) mod 65536 = int (fb_hwords fb div 2) + ?a div 4"
    by (rule wrap_free_x [where w = "int (fb_hwords fb)"])
      (use xb x assms(2) ra in \<open>simp_all\<close>)
  then show "uint (x_offs fb i s) = int (fb_hwords fb div 2) +
       (if rotate_left i then (- sint (sample_y s)) div 4 else sint (sample_x s) div 4)"
    unfolding x by simp
  have "(?b + int (v_active fb div 2)) mod 65536 = ?b + int (v_active fb div 2)"
    by (rule wrap_free_y [where w = "int (v_active fb)"])
      (use yb y assms(3) rb in \<open>simp_all\<close>)
  then show "uint (y_offs fb i s) =
       (if rotate_left i then sint (sample_x s) else sint (sample_y s)) + int (v_active fb div 2)"
    unfolding y by simp
qed

lemma accept_step:
  assumes "fsm s = LATCH1" "fb_enable i" "in_bounds fb i s"
  shows "step fb i s = s\<lparr>bus_sel := 0xF,
      bus_adr := (fb_base fb + unat (pixel_offs fb i s)) mod 2 ^ addr_width fb, fsm := READ\<rparr>"
  using assms by (simp add: step_def fsm_step_def)

lemma in_bounds_offset:
  assumes "in_bounds fb i s"
  shows "unat (y_offs fb i s) * fb_hwords fb + unat (x_offs fb i s) < v_active fb * fb_hwords fb"
proof -
  have x: "unat (x_offs fb i s) < fb_hwords fb" and y: "unat (y_offs fb i s) < v_active fb"
    using assms by (simp_all add: in_bounds_def)
  from y have "Suc (unat (y_offs fb i s)) \<le> v_active fb" by simp
  then have "Suc (unat (y_offs fb i s)) * fb_hwords fb \<le> v_active fb * fb_hwords fb"
    by (rule mult_le_mono1)
  then show ?thesis using x by simp
qed

text \<open>
  Claim C4, amended. The sub-word shift is \<open>(x mod 4) * 8\<close> unrotated and
  \<open>((-y) mod 4) * 8\<close> rotated, as claimed. The horizontal word index and the vertical
  index are the claimed sums cut to the 16 bits of their unsigned registers, that is taken
  modulo 65536; they are the claimed sums themselves for every point that passes the
  bounds check, on a framebuffer of at most 32768 words per line and 32768 lines. The word
  address registered for such a point is the base plus the offset
  \<open>vertical * fb_hwords + horizontal\<close>, the offset cut to 32 bits and the sum to the
  address width; it is the claimed sum as soon as the framebuffer fits the address space.
\<close>

theorem coordinate_mapping_modulo_width:
  "(\<not> rotate_left i \<longrightarrow>
      subpix_shift i s = nat (sint (sample_x s) mod 4) * 8 \<and>
      uint (x_offs fb i s) = (int (fb_hwords fb div 2) + sint (sample_x s) div 4) mod 2 ^ 16 \<and>
      uint (y_offs fb i s) = (sint (sample_y s) + int (v_active fb div 2)) mod 2 ^ 16) \<and>
   (rotate_left i \<longrightarrow>
      subpix_shift i s = nat ((- sint (sample_y s)) mod 4) * 8 \<and>
      uint (x_offs fb i s) = (int (fb_hwords fb div 2) + (- sint (sample_y s)) div 4) mod 2 ^ 16 \<and>
      uint (y_offs fb i s) = (sint (sample_x s) + int (v_active fb div 2)) mod 2 ^ 16) \<and>
   (in_bounds fb i s \<and> fb_hwords fb \<le> 2 ^ 15 \<and> v_active fb \<le> 2 ^ 15 \<longrightarrow>
      uint (x_offs fb i s) = int (fb_hwords fb div 2) +
        (if rotate_left i then (- sint (sample_y s)) div 4 else sint (sample_x s) div 4) \<and>
      uint (y_offs fb i s) =
        (if rotate_left i then sint (sample_x s) else sint (sample_y s)) + int (v_active fb div 2)) \<and>
   (fsm s = LATCH1 \<and> fb_enable i \<and> in_bounds fb i s \<longrightarrow>
      fsm (step fb i s) = READ \<and>
      bus_adr (step fb i s) =
        (fb_base fb + (unat (y_offs fb i s) * fb_hwords fb + unat (x_offs fb i s)) mod 2 ^ 32)
          mod 2 ^ addr_width fb) \<and>
   (fsm s = LATCH1 \<and> fb_enable i \<and> in_bounds fb i s \<and> v_active fb * fb_hwords fb \<le> 2 ^ 32 \<and>
    fb_base fb + v_active fb * fb_hwords fb \<le> 2 ^ addr_width fb \<longrightarrow>
      bus_adr (step fb i s) =
        fb_base fb + unat (y_offs fb i s) * fb_hwords fb + unat (x_offs fb i s))"
proof (intro conjI impI)
  assume "\<not> rotate_left i"
  then show "subpix_shift i s = nat (sint (sample_x s) mod 4) * 8"
    "uint (x_offs fb i s) = (int (fb_hwords fb div 2) + sint (sample_x s) div 4) mod 2 ^ 16"
    "uint (y_offs fb i s) = (sint (sample_y s) + int (v_active fb div 2)) mod 2 ^ 16"
    by (simp_all add: subpix_shift_def uint_x_offs uint_y_offs)
next
  assume "rotate_left i"
  then show "subpix_shift i s = nat ((- sint (sample_y s)) mod 4) * 8"
    "uint (x_offs fb i s) = (int (fb_hwords fb div 2) + (- sint (sample_y s)) div 4) mod 2 ^ 16"
    "uint (y_offs fb i s) = (sint (sample_x s) + int (v_active fb div 2)) mod 2 ^ 16"
    by (simp_all add: subpix_shift_def uint_x_offs uint_y_offs)
next
  assume a: "in_bounds fb i s \<and> fb_hwords fb \<le> 2 ^ 15 \<and> v_active fb \<le> 2 ^ 15"
  show "uint (x_offs fb i s) = int (fb_hwords fb div 2) +
        (if rotate_left i then (- sint (sample_y s)) div 4 else sint (sample_x s) div 4)"
    using a by (intro in_bounds_exact(1)) simp_all
  show "uint (y_offs fb i s) =
        (if rotate_left i then sint (sample_x s) else sint (sample_y s)) + int (v_active fb div 2)"
    using a by (intro in_bounds_exact(2)) simp_all
next
  assume a: "fsm s = LATCH1 \<and> fb_enable i \<and> in_bounds fb i s"
  then have st: "step fb i s = s\<lparr>bus_sel := 0xF,
      bus_adr := (fb_base fb + unat (pixel_offs fb i s)) mod 2 ^ addr_width fb, fsm := READ\<rparr>"
    by (simp add: accept_step)
  show "fsm (step fb i s) = READ" unfolding st by simp
  show "bus_adr (step fb i s) =
        (fb_base fb + (unat (y_offs fb i s) * fb_hwords fb + unat (x_offs fb i s)) mod 2 ^ 32)
          mod 2 ^ addr_width fb"
    unfolding st by (simp only: pixel_offs_def unat_32_word_of_nat) simp
next
  assume a: "fsm s = LATCH1 \<and> fb_enable i \<and> in_bounds fb i s \<and>
    v_active fb * fb_hwords fb \<le> 2 ^ 32 \<and>
    fb_base fb + v_active fb * fb_hwords fb \<le> 2 ^ addr_width fb"
  let ?o = "unat (y_offs fb i s) * fb_hwords fb + unat (x_offs fb i s)"
  have st: "step fb i s = s\<lparr>bus_sel := 0xF,
      bus_adr := (fb_base fb + unat (pixel_offs fb i s)) mod 2 ^ addr_width fb, fsm := READ\<rparr>"
    using a by (simp add: accept_step)
  have lt: "?o < v_active fb * fb_hwords fb" using a by (simp add: in_bounds_offset)
  then have o32: "?o mod 2 ^ 32 = ?o" using a by simp
  have "fb_base fb + ?o < 2 ^ addr_width fb" using lt a by linarith
  then have "(fb_base fb + ?o) mod 2 ^ addr_width fb = fb_base fb + ?o" by simp
  then have "bus_adr (step fb i s) = fb_base fb + ?o"
    unfolding st using o32 by (simp only: pixel_offs_def unat_32_word_of_nat) simp
  then show "bus_adr (step fb i s) =
        fb_base fb + unat (y_offs fb i s) * fb_hwords fb + unat (x_offs fb i s)"
    by simp
qed

lemma far_left_facts:
  "\<not> rotate_left far_left" "sint (sample_x far_left_latched) = - 100"
  "fb_hwords scenario_fb div 2 = 8"
  by (simp_all add: far_left_def far_left_latched_def scenario_inputs_def latch_sample_def
      fb_hwords_def scenario_fb_def)

lemma far_left_x_offs: "uint (x_offs scenario_fb far_left far_left_latched) = 65519"
  by (simp add: uint_x_offs far_left_facts)

text \<open>
  Claim C4, as stated, fails for a point left of the screen. On 16 words per line the
  unrotated point with \<open>x = -100\<close> would have the horizontal word index
  \<open>8 + (-100 >> 2) = -17\<close>; the register \<open>x_offs\<close> holds 65519.
\<close>

theorem unbounded_index_counterexample:
  "\<not> rotate_left far_left \<and> sint (sample_x far_left_latched) = - 100 \<and>
   int (fb_hwords scenario_fb div 2) + sint (sample_x far_left_latched) div 4 = - 17 \<and>
   uint (x_offs scenario_fb far_left far_left_latched) = 65519 \<and>
   uint (x_offs scenario_fb far_left far_left_latched) \<noteq>
     int (fb_hwords scenario_fb div 2) + sint (sample_x far_left_latched) div 4"
  by (simp add: far_left_facts far_left_x_offs)

lemma origin_facts:
  "\<not> rotate_left scenario_inputs" "fsm origin_latched = LATCH1"
  "sint (sample_x origin_latched) = 0" "sint (sample_y origin_latched) = 0"
  "fb_hwords scenario_fb = 16" "v_active scenario_fb = 32" "fb_base scenario_fb = 0"
  "addr_width scenario_fb = 22"
  by (simp_all add: origin_latched_def scenario_inputs_def latch_sample_def
      fb_hwords_def scenario_fb_def)

lemma origin_offs: "x_offs scenario_fb scenario_inputs origin_latched = 8"
  "y_offs scenario_fb scenario_inputs origin_latched = 16"
  by (simp_all add: x_offs_def y_offs_def origin_facts)

lemma origin_in_bounds: "in_bounds scenario_fb scenario_inputs origin_latched"
  by (simp add: in_bounds_def origin_offs origin_facts)

lemma rotated_facts:
  "rotate_left rotated" "sint (sample_x rotated_latched) = 3" "sint (sample_y rotated_latched) = - 5"
  by (simp_all add: rotated_latched_def rotated_def scenario_inputs_def latch_sample_def)

theorem coordinate_mapping_modulo_width_witness:
  "\<not> rotate_left scenario_inputs \<and> fsm origin_latched = LATCH1 \<and> fb_enable scenario_inputs \<and>
   in_bounds scenario_fb scenario_inputs origin_latched \<and>
   fb_hwords scenario_fb \<le> 2 ^ 15 \<and> v_active scenario_fb \<le> 2 ^ 15 \<and>
   v_active scenario_fb * fb_hwords scenario_fb \<le> 2 ^ 32 \<and>
   fb_base scenario_fb + v_active scenario_fb * fb_hwords scenario_fb \<le> 2 ^ addr_width scenario_fb \<and>
   subpix_shift scenario_inputs origin_latched = 0 \<and>
   uint (x_offs scenario_fb scenario_inputs origin_latched) = 8 \<and>
   uint (y_offs scenario_fb scenario_inputs origin_latched) = 16 \<and>
   fsm (step scenario_fb scenario_inputs origin_latched) = READ \<and>
   bus_adr (step scenario_fb scenario_inputs origin_latched) = 264 \<and>
   rotate_left rotated \<and>
   subpix_shift rotated rotated_latched = 8 \<and>
   uint (x_offs scenario_fb rotated rotated_latched) = 9 \<and>
   uint (y_offs scenario_fb rotated rotated_latched) = 19"
  using coordinate_mapping_modulo_width [where i = scenario_inputs and s = origin_latched
      and fb = scenario_fb]
    coordinate_mapping_modulo_width [where i = rotated and s = rotated_latched
      and fb = scenario_fb]
    origin_facts origin_offs origin_in_bounds rotated_facts scenario_facts(2)
  by simp

subsection \<open>When a configuration field acts\<close>

lemma retuned_run:
  "sys_run scenario_fb (idle_state, \<lambda>a. 0) [scenario_inputs, retuned, retuned, retuned, retuned, retuned, retuned] =
    (reset_state\<lparr>sample_intensity := 1, bus_sel := 0xF, bus_adr := 264, fsm := LATCH0\<rparr>,
     (\<lambda>a. 0)(264 := 0x15))"
  apply (simp add: sys_run_Cons sys_run_Nil
   sys_step_def step_def fsm_step_def mem_step_def retuned_def scenario_inputs_def
   idle_state_def reset_state_def scenario_fb_def latch_sample_def in_bounds_def x_offs_def y_offs_def
   pixel_offs_def fb_hwords_def subpix_shift_def write_req_def bus_stb_def bus_cyc_def bus_we_def
   bus_dat_w_def intensity_sum_def px_sum_4_8_def new_color_def Cat_def white_def sel_mask_def)
  done

lemma deferred_fields_step:
  assumes "fsm s \<noteq> LATCH0"
  shows "step fb (i\<lparr>intensity := a, scale_x := b, scale_y := c, x_offset := d, y_offset := e\<rparr>) s
      = step fb i s"
proof -
  let ?i = "i\<lparr>intensity := a, scale_x := b, scale_y := c, x_offset := d, y_offset := e\<rparr>"
  have r: "rotate_left ?i = rotate_left i" by simp
  have p: "in_bounds fb ?i s = in_bounds fb i s" "pixel_offs fb ?i s = pixel_offs fb i s"
    "subpix_shift ?i s = subpix_shift i s"
    using position_cong(5) [OF r refl refl] position_cong(4) [OF r refl refl]
      position_cong(1) [OF r refl refl] by simp_all
  show ?thesis
    using assms unfolding step_def fsm_step_def p
    by (cases "fsm s") simp_all
qed

lemma deferred_fields_payload:
  "bus_dat_w (i\<lparr>intensity := a, scale_x := b, scale_y := c, x_offset := d, y_offset := e\<rparr>) s
      = bus_dat_w i s"
  by (simp add: bus_dat_w_def subpix_shift_def new_color_def)

lemma enable_only_off:
  assumes "fsm s \<noteq> OFF"
  shows "step fb (i\<lparr>enable := en\<rparr>) s = step fb i s"
proof -
  let ?i = "i\<lparr>enable := en\<rparr>"
  have r: "rotate_left ?i = rotate_left i" by simp
  have p: "in_bounds fb ?i s = in_bounds fb i s" "pixel_offs fb ?i s = pixel_offs fb i s"
    "subpix_shift ?i s = subpix_shift i s"
    using position_cong(5) [OF r refl refl] position_cong(4) [OF r refl refl]
      position_cong(1) [OF r refl refl] by simp_all
  have l: "latch_sample ?i s = latch_sample i s" by (simp add: latch_sample_def)
  show ?thesis
    using assms unfolding step_def fsm_step_def p l
    by (cases "fsm s") simp_all
qed

lemma capture_engine_step:
  assumes "fsm s = LATCH0" "valid i" "fb_enable i"
  shows "step fb i s = (latch_sample i s)\<lparr>fsm := LATCH1\<rparr>"
  using assms by (simp add: step_def fsm_step_def)

lemma deferred_fields_no_capture:
  assumes "\<not> (fsm s = LATCH0 \<and> valid i \<and> fb_enable i)"
  shows "step fb (i\<lparr>intensity := a, scale_x := b, scale_y := c, x_offset := d, y_offset := e\<rparr>) s
      = step fb i s"
proof (cases "fsm s = LATCH0")
  case False
  then show ?thesis by (rule deferred_fields_step)
next
  case True
  with assms have "\<not> valid i \<or> \<not> fb_enable i" by simp
  then show ?thesis using True by (auto simp: step_def fsm_step_def)
qed

lemma hue_not_in_step: "step fb (i\<lparr>hue := h\<rparr>) s = step fb i s"
proof -
  let ?i = "i\<lparr>hue := h\<rparr>"
  have r: "rotate_left ?i = rotate_left i" by simp
  have p: "in_bounds fb ?i s = in_bounds fb i s" "pixel_offs fb ?i s = pixel_offs fb i s"
    "subpix_shift ?i s = subpix_shift i s"
    using position_cong(5) [OF r refl refl] position_cong(4) [OF r refl refl]
      position_cong(1) [OF r refl refl] by simp_all
  have l: "latch_sample ?i s = latch_sample i s" by (simp add: latch_sample_def)
  show ?thesis
    unfolding step_def fsm_step_def p l by (cases "fsm s") simp_all
qed

lemma rotate_only_check_and_read:
  assumes "fsm s \<noteq> LATCH1" "fsm s \<noteq> READ"
  shows "step fb (i\<lparr>rotate_left := r\<rparr>) s = step fb i s"
proof -
  have l: "latch_sample (i\<lparr>rotate_left := r\<rparr>) s = latch_sample i s"
    by (simp add: latch_sample_def)
  show ?thesis
    using assms unfolding step_def fsm_step_def l by (cases "fsm s") simp_all
qed

lemma bounds_check_step:
  assumes "fsm s = LATCH1" "fb_enable i"
  shows "step fb i s =
     (if unat (x_offs fb i s) < fb_hwords fb \<and> unat (y_offs fb i s) < v_active fb
      then s\<lparr>bus_sel := 0xF,
             bus_adr := (fb_base fb + unat (pixel_offs fb i s)) mod 2 ^ addr_width fb,
             fsm := READ\<rparr>
      else s\<lparr>fsm := LATCH0\<rparr>)"
  using assms by (simp add: step_def fsm_step_def in_bounds_def)

lemma address_registered_in_check:
  assumes "fsm s \<noteq> LATCH1" "fb_enable i"
  shows "bus_adr (step fb i s) = bus_adr s"
  using assms by (cases "fsm s") (simp_all add: step_def fsm_step_def)

text \<open>
  Claim C8, amended. The hue and the rotation flag are read in every cycle and act at
  once, also on a transaction in progress: the colour written is computed from the hue of
  the write cycle, and the sub-word shift from the rotation flag of the cycle that uses
  it, which is the cycle of the read acknowledge for the byte extracted and the write
  cycle for the payload; the indices of the bounds check follow the flag of the cycle of
  the check, where the address is registered, to be held until the next check. The hue
  enters nothing else, and the flag enters the next state only in those two states. The
  intensity step, both scales and both offsets are sampled in the cycle that captures a
  point and nowhere else: in every other cycle, the accepting state without a capture
  included, neither the next state nor the write payload depends on them, so a change acts
  from the next capture on. The enable input is read in state \<open>OFF\<close> only.
\<close>

theorem configuration_fields_take_effect:
  "(fsm s = LATCH0 \<and> valid i \<and> fb_enable i \<longrightarrow>
      step fb i s = (latch_sample i s)\<lparr>fsm := LATCH1\<rparr> \<and>
      sample_intensity (step fb i s) = intensity i \<and>
      sample_x (step fb i s) =
        word_of_int (sint (payload0 i) div 2 ^ unat (scale_x i) + sint (x_offset i)) \<and>
      sample_y (step fb i s) =
        word_of_int (sint (payload1 i) div 2 ^ unat (scale_y i) + sint (y_offset i))) \<and>
   (\<not> (fsm s = LATCH0 \<and> valid i \<and> fb_enable i) \<longrightarrow>
      step fb (i\<lparr>intensity := a, scale_x := b, scale_y := c, x_offset := d, y_offset := e\<rparr>) s
        = step fb i s) \<and>
   bus_dat_w (i\<lparr>intensity := a, scale_x := b, scale_y := c, x_offset := d, y_offset := e\<rparr>) s
     = bus_dat_w i s \<and>
   (fsm s \<noteq> OFF \<longrightarrow> step fb (i\<lparr>enable := en\<rparr>) s = step fb i s) \<and>
   (fsm s = OFF \<and> fb_enable i \<longrightarrow> fsm (step fb i s) = (if enable i then LATCH0 else OFF)) \<and>
   (fsm s = WRITE \<longrightarrow>
      bits_3_0 (pixel_byte (subpix_shift i s) (bus_dat_w i s)) =
        nat ((sint (sample_c s) div 2 ^ 10 + uint (hue i)) mod 2 ^ 4) \<and>
      bus_dat_w i s =
        (px_read s AND NOT (push_bit (subpix_shift i s) 0xFF)) OR
        push_bit (subpix_shift i s) (Cat (new_color i s) (min 15 (intensity_sum s)))) \<and>
   subpix_shift i s =
     (if rotate_left i then nat ((- sint (sample_y s)) mod 4) * 8
      else nat (sint (sample_x s) mod 4) * 8) \<and>
   step fb (i\<lparr>hue := h\<rparr>) s = step fb i s \<and>
   (fsm s \<noteq> LATCH1 \<and> fsm s \<noteq> READ \<longrightarrow> step fb (i\<lparr>rotate_left := r\<rparr>) s = step fb i s) \<and>
   (fsm s = READ \<and> ack i \<and> fb_enable i \<longrightarrow>
      step fb i s = s\<lparr>px_read := dat_r i,
        px_sum := ucast (pixel_byte (subpix_shift i s) (dat_r i)), fsm := WAIT\<rparr>) \<and>
   (fsm s = LATCH1 \<and> fb_enable i \<longrightarrow>
      step fb i s =
        (if unat (x_offs fb i s) < fb_hwords fb \<and> unat (y_offs fb i s) < v_active fb
         then s\<lparr>bus_sel := 0xF,
                bus_adr := (fb_base fb + unat (pixel_offs fb i s)) mod 2 ^ addr_width fb,
                fsm := READ\<rparr>
         else s\<lparr>fsm := LATCH0\<rparr>)) \<and>
   uint (x_offs fb i s) =
     (int (fb_hwords fb div 2) +
      (if rotate_left i then (- sint (sample_y s)) div 4 else sint (sample_x s) div 4)) mod 2 ^ 16 \<and>
   uint (y_offs fb i s) =
     ((if rotate_left i then sint (sample_x s) else sint (sample_y s)) + int (v_active fb div 2))
       mod 2 ^ 16 \<and>
   (fsm s \<noteq> LATCH1 \<and> fb_enable i \<longrightarrow> bus_adr (step fb i s) = bus_adr s)"
proof (intro conjI impI)
  assume a: "fsm s = LATCH0 \<and> valid i \<and> fb_enable i"
  then have st: "step fb i s = (latch_sample i s)\<lparr>fsm := LATCH1\<rparr>"
    by (simp add: capture_engine_step)
  show "step fb i s = (latch_sample i s)\<lparr>fsm := LATCH1\<rparr>" by (rule st)
  show "sample_intensity (step fb i s) = intensity i"
    "sample_x (step fb i s) =
        word_of_int (sint (payload0 i) div 2 ^ unat (scale_x i) + sint (x_offset i))"
    "sample_y (step fb i s) =
        word_of_int (sint (payload1 i) div 2 ^ unat (scale_y i) + sint (y_offset i))"
    unfolding st by (simp_all add: latch_sample_def)
next
  assume "\<not> (fsm s = LATCH0 \<and> valid i \<and> fb_enable i)"
  then show "step fb (i\<lparr>intensity := a, scale_x := b, scale_y := c, x_offset := d, y_offset := e\<rparr>) s
        = step fb i s"
    by (rule deferred_fields_no_capture)
next
  show "bus_dat_w (i\<lparr>intensity := a, scale_x := b, scale_y := c, x_offset := d, y_offset := e\<rparr>) s
        = bus_dat_w i s"
    by (rule deferred_fields_payload)
next
  assume "fsm s \<noteq> OFF"
  then show "step fb (i\<lparr>enable := en\<rparr>) s = step fb i s" by (rule enable_only_off)
next
  assume "fsm s = OFF \<and> fb_enable i"
  then show "fsm (step fb i s) = (if enable i then LATCH0 else OFF)"
    by (simp add: step_def fsm_step_def)
next
  assume w: "fsm s = WRITE"
  show "bits_3_0 (pixel_byte (subpix_shift i s) (bus_dat_w i s)) =
        nat ((sint (sample_c s) div 2 ^ 10 + uint (hue i)) mod 2 ^ 4)"
    using written_colour [OF w, of i] by (simp only: unat_new_color)
  show "bus_dat_w i s =
        (px_read s AND NOT (push_bit (subpix_shift i s) 0xFF)) OR
        push_bit (subpix_shift i s) (Cat (new_color i s) (min 15 (intensity_sum s)))"
    by (rule bus_dat_w_min [OF w])
next
  show "subpix_shift i s =
     (if rotate_left i then nat ((- sint (sample_y s)) mod 4) * 8
      else nat (sint (sample_x s) mod 4) * 8)"
    by (rule subpix_shift_def)
next
  show "step fb (i\<lparr>hue := h\<rparr>) s = step fb i s" by (rule hue_not_in_step)
next
  assume "fsm s \<noteq> LATCH1 \<and> fsm s \<noteq> READ"
  then show "step fb (i\<lparr>rotate_left := r\<rparr>) s = step fb i s"
    by (simp add: rotate_only_check_and_read)
next
  assume "fsm s = READ \<and> ack i \<and> fb_enable i"
  then show "step fb i s = s\<lparr>px_read := dat_r i,
        px_sum := ucast (pixel_byte (subpix_shift i s) (dat_r i)), fsm := WAIT\<rparr>"
    using read_capture [of s i fb] by simp
next
  assume "fsm s = LATCH1 \<and> fb_enable i"
  then show "step fb i s =
        (if unat (x_offs fb i s) < fb_hwords fb \<and> unat (y_offs fb i s) < v_active fb
         then s\<lparr>bus_sel := 0xF,
                bus_adr := (fb_base fb + unat (pixel_offs fb i s)) mod 2 ^ addr_width fb,
                fsm := READ\<rparr>
         else s\<lparr>fsm := LATCH0\<rparr>)"
    using bounds_check_step [of s i fb] by simp
next
  show "uint (x_offs fb i s) =
     (int (fb_hwords fb div 2) +
      (if rotate_left i then (- sint (sample_y s)) div 4 else sint (sample_x s) div 4)) mod 2 ^ 16"
    by (rule uint_x_offs)
  show "uint (y_offs fb i s) =
     ((if rotate_left i then sint (sample_x s) else sint (sample_y s)) + int (v_active fb div 2))
       mod 2 ^ 16"
    by (rule uint_y_offs)
next
  assume "fsm s \<noteq> LATCH1 \<and> fb_enable i"
  then show "bus_adr (step fb i s) = bus_adr s"
    using address_registered_in_check [of s i fb] by simp
qed

text \<open>
  Claim C8, as stated, fails for the intensity step. A point is captured while the step
  is 1; from the next cycle on the step is 8. The transaction in progress still adds 1:
  the word written over a zero word is \<open>0x15\<close>, intensity 1 and colour 5.
\<close>

theorem intensity_step_deferred_counterexample:
  "unat (intensity scenario_inputs) = 1 \<and> unat (intensity retuned) = 8 \<and>
   fsm (fst (sys_run scenario_fb (idle_state, \<lambda>a. 0)
      [scenario_inputs, retuned, retuned, retuned, retuned, retuned, retuned])) = LATCH0 \<and>
   snd (sys_run scenario_fb (idle_state, \<lambda>a. 0)
      [scenario_inputs, retuned, retuned, retuned, retuned, retuned, retuned]) 264 = 0x15 \<and>
   bits_7_4 (pixel_byte 0 (snd (sys_run scenario_fb (idle_state, \<lambda>a. 0)
      [scenario_inputs, retuned, retuned, retuned, retuned, retuned, retuned]) 264)) = 1 \<and>
   bits_7_4 (pixel_byte 0 (snd (sys_run scenario_fb (idle_state, \<lambda>a. 0)
      [scenario_inputs, retuned, retuned, retuned, retuned, retuned, retuned]) 264))
     \<noteq> min 15 (0 + unat (intensity retuned))"
  unfolding retuned_run
  by (simp add: retuned_def scenario_inputs_def bits_7_4_arith unat_pixel_byte)

theorem configuration_fields_take_effect_witness:
  "fsm idle_state = LATCH0 \<and> valid scenario_inputs \<and> fb_enable scenario_inputs \<and>
   sample_intensity (step scenario_fb scenario_inputs idle_state) = 1 \<and>
   \<not> (fsm idle_state = LATCH0 \<and> valid (scenario_inputs\<lparr>valid := False\<rparr>) \<and>
      fb_enable (scenario_inputs\<lparr>valid := False\<rparr>)) \<and>
   step scenario_fb
     (scenario_inputs\<lparr>valid := False, intensity := 8, scale_x := 3, scale_y := 3, x_offset := 7,
        y_offset := 7\<rparr>)
     idle_state = step scenario_fb (scenario_inputs\<lparr>valid := False\<rparr>) idle_state \<and>
   \<not> (fsm write_state = LATCH0 \<and> valid scenario_inputs \<and> fb_enable scenario_inputs) \<and>
   step scenario_fb
     (scenario_inputs\<lparr>intensity := 8, scale_x := 3, scale_y := 3, x_offset := 7, y_offset := 7\<rparr>)
     write_state = step scenario_fb scenario_inputs write_state \<and>
   bus_dat_w
     (scenario_inputs\<lparr>intensity := 8, scale_x := 3, scale_y := 3, x_offset := 7, y_offset := 7\<rparr>)
     write_state = 0x1122B544 \<and>
   fsm write_state \<noteq> OFF \<and>
   step scenario_fb (scenario_inputs\<lparr>enable := False\<rparr>) write_state =
     step scenario_fb scenario_inputs write_state \<and>
   fsm reset_state = OFF \<and>
   fsm (step scenario_fb scenario_inputs reset_state) = LATCH0 \<and>
   fsm write_state = WRITE \<and>
   bits_3_0 (pixel_byte (subpix_shift scenario_inputs write_state)
     (bus_dat_w scenario_inputs write_state)) = 5 \<and>
   fsm write_state \<noteq> LATCH1 \<and> fsm write_state \<noteq> READ \<and>
   step scenario_fb (scenario_inputs\<lparr>rotate_left := True\<rparr>) write_state =
     step scenario_fb scenario_inputs write_state \<and>
   bus_adr (step scenario_fb scenario_inputs write_state) = bus_adr write_state \<and>
   fsm read_state = READ \<and> ack scenario_inputs \<and>
   step scenario_fb scenario_inputs read_state =
     read_state\<lparr>px_read := dat_r scenario_inputs,
       px_sum := ucast (pixel_byte (subpix_shift scenario_inputs read_state) (dat_r scenario_inputs)),
       fsm := WAIT\<rparr> \<and>
   fsm origin_latched = LATCH1 \<and>
   fsm (step scenario_fb scenario_inputs origin_latched) = READ"
proof -
  have v: "valid scenario_inputs" "enable scenario_inputs" "sample_c write_state = 0"
    "fsm reset_state = OFF" "\<not> valid (scenario_inputs\<lparr>valid := False\<rparr>)"
    by (simp_all add: scenario_inputs_def write_state_def read_state_def reset_state_def)
  have nl: "fsm write_state \<noteq> LATCH0" "fsm write_state \<noteq> OFF" "fsm write_state \<noteq> LATCH1"
    "fsm write_state \<noteq> READ"
    by (simp_all add: write_state_fields(1))
  note t = configuration_fields_take_effect [where fb = scenario_fb and i = scenario_inputs
      and a = 8 and b = 3 and c = 3 and d = 7 and e = 7 and en = False and r = True and h = 0]
  note ti = configuration_fields_take_effect [where fb = scenario_fb
      and i = "scenario_inputs\<lparr>valid := False\<rparr>" and s = idle_state
      and a = 8 and b = 3 and c = 3 and d = 7 and e = 7 and en = False and r = True and h = 0]
  note c1 = t [where s = idle_state, THEN conjunct1]
    and c2i = ti [THEN conjunct2, THEN conjunct1]
    and c2 = t [where s = write_state, THEN conjunct2, THEN conjunct1]
    and c3 = t [where s = write_state, THEN conjunct2, THEN conjunct2, THEN conjunct1]
    and c4 = t [where s = write_state, THEN conjunct2, THEN conjunct2, THEN conjunct2,
      THEN conjunct1]
    and c5 = t [where s = reset_state, THEN conjunct2, THEN conjunct2, THEN conjunct2,
      THEN conjunct2, THEN conjunct1]
    and c6 = t [where s = write_state, THEN conjunct2, THEN conjunct2, THEN conjunct2,
      THEN conjunct2, THEN conjunct2, THEN conjunct1]
    and c9 = t [where s = write_state, THEN conjunct2, THEN conjunct2, THEN conjunct2,
      THEN conjunct2, THEN conjunct2, THEN conjunct2, THEN conjunct2, THEN conjunct2,
      THEN conjunct1]
    and c10 = t [where s = read_state, THEN conjunct2, THEN conjunct2, THEN conjunct2,
      THEN conjunct2, THEN conjunct2, THEN conjunct2, THEN conjunct2, THEN conjunct2,
      THEN conjunct2, THEN conjunct1]
    and c11 = t [where s = origin_latched, THEN conjunct2, THEN conjunct2, THEN conjunct2,
      THEN conjunct2, THEN conjunct2, THEN conjunct2, THEN conjunct2, THEN conjunct2,
      THEN conjunct2, THEN conjunct2, THEN conjunct1]
    and c14 = t [where s = write_state, THEN conjunct2, THEN conjunct2, THEN conjunct2,
      THEN conjunct2, THEN conjunct2, THEN conjunct2, THEN conjunct2, THEN conjunct2,
      THEN conjunct2, THEN conjunct2, THEN conjunct2, THEN conjunct2, THEN conjunct2]
  have p1: "sample_intensity (step scenario_fb scenario_inputs idle_state) = 1"
    using c1 v scenario_facts by simp
  have p2i: "step scenario_fb
     (scenario_inputs\<lparr>valid := False, intensity := 8, scale_x := 3, scale_y := 3, x_offset := 7,
        y_offset := 7\<rparr>)
     idle_state = step scenario_fb (scenario_inputs\<lparr>valid := False\<rparr>) idle_state"
    using c2i v(5) by simp
  have p2: "step scenario_fb
     (scenario_inputs\<lparr>intensity := 8, scale_x := 3, scale_y := 3, x_offset := 7, y_offset := 7\<rparr>)
     write_state = step scenario_fb scenario_inputs write_state"
    using c2 nl(1) by simp
  have p3: "bus_dat_w
     (scenario_inputs\<lparr>intensity := 8, scale_x := 3, scale_y := 3, x_offset := 7, y_offset := 7\<rparr>)
     write_state = 0x1122B544"
    using c3 write_state_payload by simp
  have p4: "step scenario_fb (scenario_inputs\<lparr>enable := False\<rparr>) write_state =
     step scenario_fb scenario_inputs write_state"
    using c4 nl(2) by simp
  have p5: "fsm (step scenario_fb scenario_inputs reset_state) = LATCH0"
    using c5 v scenario_facts by simp
  have p6: "bits_3_0 (pixel_byte (subpix_shift scenario_inputs write_state)
     (bus_dat_w scenario_inputs write_state)) = 5"
    using c6 [THEN mp, OF write_state_fields(1), THEN conjunct1] v(3) scenario_facts(3) by simp
  have p9: "step scenario_fb (scenario_inputs\<lparr>rotate_left := True\<rparr>) write_state =
     step scenario_fb scenario_inputs write_state"
    using c9 nl(3,4) by simp
  have p10: "step scenario_fb scenario_inputs read_state =
     read_state\<lparr>px_read := dat_r scenario_inputs,
       px_sum := ucast (pixel_byte (subpix_shift scenario_inputs read_state) (dat_r scenario_inputs)),
       fsm := WAIT\<rparr>"
    using c10 read_state_fields(1,3) scenario_facts(2) by simp
  have p11: "fsm (step scenario_fb scenario_inputs origin_latched) = READ"
    using c11 origin_facts(2) scenario_facts(2) origin_in_bounds by (simp add: in_bounds_def)
  have p14: "bus_adr (step scenario_fb scenario_inputs write_state) = bus_adr write_state"
    using c14 nl(3) scenario_facts(2) by simp
  have n1: "\<not> (fsm idle_state = LATCH0 \<and> valid (scenario_inputs\<lparr>valid := False\<rparr>) \<and>
      fb_enable (scenario_inputs\<lparr>valid := False\<rparr>))"
    by simp
  have n2: "\<not> (fsm write_state = LATCH0 \<and> valid scenario_inputs \<and> fb_enable scenario_inputs)"
    using nl(1) by simp
  show ?thesis
    using scenario_facts(1,2) v(1,4) p1 n1 p2i n2 p2 p3 nl p4 p5 write_state_fields(1) p6 p9 p14
      read_state_fields(1,3) p10 origin_facts(2) p11
    by blast
qed

subsection \<open>Runs of the engine\<close>

lemma step_reset: "\<not> fb_enable i \<Longrightarrow> step fb i s = reset_state"
  by (simp add: step_def)

lemma fsm_reset [simp]: "fsm reset_state = OFF"
  by (simp add: reset_state_def)

lemma step_cases:
  "step fb i s = reset_state \<and> \<not> fb_enable i \<or>
   fb_enable i \<and>
   (fsm s = OFF \<and> step fb i s = (if enable i then s\<lparr>fsm := LATCH0\<rparr> else s) \<or>
    fsm s = LATCH0 \<and> step fb i s = (if valid i then (latch_sample i s)\<lparr>fsm := LATCH1\<rparr> else s) \<or>
    fsm s = LATCH1 \<and> in_bounds fb i s \<and>
      step fb i s = s\<lparr>bus_sel := 0xF,
        bus_adr := (fb_base fb + unat (pixel_offs fb i s)) mod 2 ^ addr_width fb, fsm := READ\<rparr> \<or>
    fsm s = LATCH1 \<and> \<not> in_bounds fb i s \<and> step fb i s = s\<lparr>fsm := LATCH0\<rparr> \<or>
    fsm s = READ \<and> ack i \<and>
      step fb i s = s\<lparr>px_read := dat_r i,
        px_sum := ucast (pixel_byte (subpix_shift i s) (dat_r i)), fsm := WAIT\<rparr> \<or>
    fsm s = READ \<and> \<not> ack i \<and> step fb i s = s \<or>
    fsm s = WAIT \<and> step fb i s = s\<lparr>fsm := WAIT2\<rparr> \<or>
    fsm s = WAIT2 \<and> step fb i s = s\<lparr>fsm := WAIT3\<rparr> \<or>
    fsm s = WAIT3 \<and> step fb i s = s\<lparr>fsm := WRITE\<rparr> \<or>
    fsm s = WRITE \<and> ack i \<and> step fb i s = s\<lparr>fsm := LATCH0\<rparr> \<or>
    fsm s = WRITE \<and> \<not> ack i \<and> step fb i s = s)"
  by (cases "fsm s") (simp_all add: step_def fsm_step_def bus_stb_def pixel_byte_def)

lemma pred_WAIT:
  "fsm (step fb i s) = WAIT \<Longrightarrow> fsm s = READ \<and> ack i \<and> fb_enable i \<and>
     step fb i s = s\<lparr>px_read := dat_r i,
        px_sum := ucast (pixel_byte (subpix_shift i s) (dat_r i)), fsm := WAIT\<rparr>"
  using step_cases [of fb i s] by (auto split: if_splits)

lemma pred_WAIT2:
  "fsm (step fb i s) = WAIT2 \<Longrightarrow> fsm s = WAIT \<and> fb_enable i \<and> step fb i s = s\<lparr>fsm := WAIT2\<rparr>"
  using step_cases [of fb i s] by (auto split: if_splits)

lemma pred_WAIT3:
  "fsm (step fb i s) = WAIT3 \<Longrightarrow> fsm s = WAIT2 \<and> fb_enable i \<and> step fb i s = s\<lparr>fsm := WAIT3\<rparr>"
  using step_cases [of fb i s] by (auto split: if_splits)

lemma pred_WRITE:
  "fsm (step fb i s) = WRITE \<Longrightarrow>
     fb_enable i \<and> (fsm s = WAIT3 \<and> step fb i s = s\<lparr>fsm := WRITE\<rparr> \<or>
       fsm s = WRITE \<and> \<not> ack i \<and> step fb i s = s)"
  using step_cases [of fb i s] by (auto split: if_splits)

lemma busy_pred:
  "busy (step fb i s) \<Longrightarrow>
     captures i s \<and> step fb i s = (latch_sample i s)\<lparr>fsm := LATCH1\<rparr> \<or>
     busy s \<and> \<not> retires fb i s \<and> sample_regs (step fb i s) = sample_regs s"
  using step_cases [of fb i s]
  by (auto simp: busy_def captures_def ready_def retires_def write_req_def bus_we_def bus_stb_def
      bus_cyc_def sample_regs_def split: if_splits)

lemma busy_succ:
  "busy s \<Longrightarrow> \<not> retires fb i s \<Longrightarrow> busy (step fb i s) \<and> sample_regs (step fb i s) = sample_regs s"
  using step_cases [of fb i s]
  by (auto simp: busy_def retires_def write_req_def bus_we_def bus_stb_def
      bus_cyc_def sample_regs_def split: if_splits)

lemma captures_succ:
  "captures i s \<Longrightarrow> step fb i s = (latch_sample i s)\<lparr>fsm := LATCH1\<rparr>"
  by (simp add: captures_def ready_def step_def fsm_step_def)

lemma state_at_0_fsm: "fsm (state_at fb inp 0) = OFF"
  by simp

lemma write_onset:
  assumes "fsm (state_at fb inp (Suc n)) = WRITE" "fsm (state_at fb inp n) \<noteq> WRITE"
  shows "\<exists>r. n = r + 3 \<and> fsm (state_at fb inp r) = READ \<and> ack (inp r) \<and> fb_enable (inp r) \<and>
      state_at fb inp (r + 1) = (state_at fb inp r)\<lparr>px_read := dat_r (inp r),
        px_sum := ucast (pixel_byte (subpix_shift (inp r) (state_at fb inp r)) (dat_r (inp r))),
        fsm := WAIT\<rparr> \<and>
      state_at fb inp (r + 2) = (state_at fb inp (r + 1))\<lparr>fsm := WAIT2\<rparr> \<and>
      state_at fb inp (r + 3) = (state_at fb inp (r + 2))\<lparr>fsm := WAIT3\<rparr> \<and>
      state_at fb inp (r + 4) = (state_at fb inp (r + 3))\<lparr>fsm := WRITE\<rparr>"
proof -
  from assms have w3: "fsm (state_at fb inp n) = WAIT3"
    and e4: "state_at fb inp (Suc n) = (state_at fb inp n)\<lparr>fsm := WRITE\<rparr>"
    using pred_WRITE [of fb "inp n" "state_at fb inp n"] by auto
  from w3 obtain n1 where n1: "n = Suc n1" by (cases n) auto
  from w3 have w2: "fsm (state_at fb inp n1) = WAIT2"
    and e3: "state_at fb inp (Suc n1) = (state_at fb inp n1)\<lparr>fsm := WAIT3\<rparr>"
    using pred_WAIT3 [of fb "inp n1" "state_at fb inp n1"] unfolding n1 by auto
  from w2 obtain n2 where n2: "n1 = Suc n2" by (cases n1) auto
  from w2 have w1: "fsm (state_at fb inp n2) = WAIT"
    and e2: "state_at fb inp (Suc n2) = (state_at fb inp n2)\<lparr>fsm := WAIT2\<rparr>"
    using pred_WAIT2 [of fb "inp n2" "state_at fb inp n2"] unfolding n2 by auto
  from w1 obtain r where r: "n2 = Suc r" by (cases n2) auto
  from w1 have rd: "fsm (state_at fb inp r) = READ" "ack (inp r)" "fb_enable (inp r)"
    and e1: "state_at fb inp (Suc r) = (state_at fb inp r)\<lparr>px_read := dat_r (inp r),
        px_sum := ucast (pixel_byte (subpix_shift (inp r) (state_at fb inp r)) (dat_r (inp r))),
        fsm := WAIT\<rparr>"
    using pred_WAIT [of fb "inp r" "state_at fb inp r"] unfolding r by auto
  have idx: "n = r + 3" "r + 1 = Suc r" "r + 2 = Suc n2" "r + 3 = Suc n1" "r + 4 = Suc n"
    using n1 n2 r by simp_all
  show ?thesis
    apply (rule exI [of _ r])
    unfolding idx(2-5)
    using idx(1) rd e1 e2 [unfolded r] e3 [unfolded n2 r] e4 [unfolded n1 n2 r]
    by (simp only: n1 n2 r)
qed

text \<open>What a transaction holds from the acknowledge of its read on.\<close>

lemma write_history:
  assumes "fsm (state_at fb inp m) = WRITE"
  shows "\<exists>r. r + 3 < m \<and> fsm (state_at fb inp r) = READ \<and> ack (inp r) \<and> fb_enable (inp r) \<and>
      fsm (state_at fb inp (r + 1)) = WAIT \<and> fsm (state_at fb inp (r + 2)) = WAIT2 \<and>
      fsm (state_at fb inp (r + 3)) = WAIT3 \<and>
      (\<forall>k. r + 3 < k \<and> k \<le> m \<longrightarrow> fsm (state_at fb inp k) = WRITE) \<and>
      (\<forall>k. r < k \<and> k \<le> m \<longrightarrow>
         sample_regs (state_at fb inp k) = sample_regs (state_at fb inp r) \<and>
         bus_adr (state_at fb inp k) = bus_adr (state_at fb inp r) \<and>
         px_read (state_at fb inp k) = dat_r (inp r) \<and>
         px_sum (state_at fb inp k) =
           ucast (pixel_byte (subpix_shift (inp r) (state_at fb inp r)) (dat_r (inp r))))"
  using assms
proof (induction m)
  case 0
  then show ?case by simp
next
  case (Suc m)
  show ?case
  proof (cases "fsm (state_at fb inp m) = WRITE")
    case True
    with Suc.prems have same: "state_at fb inp (Suc m) = state_at fb inp m"
      using pred_WRITE [of fb "inp m" "state_at fb inp m"] by auto
    from Suc.IH [OF True] obtain r where r: "r + 3 < m" "fsm (state_at fb inp r) = READ"
      "ack (inp r)" "fb_enable (inp r)"
      "fsm (state_at fb inp (r + 1)) = WAIT" "fsm (state_at fb inp (r + 2)) = WAIT2"
      "fsm (state_at fb inp (r + 3)) = WAIT3"
      "\<forall>k. r + 3 < k \<and> k \<le> m \<longrightarrow> fsm (state_at fb inp k) = WRITE"
      "\<forall>k. r < k \<and> k \<le> m \<longrightarrow>
         sample_regs (state_at fb inp k) = sample_regs (state_at fb inp r) \<and>
         bus_adr (state_at fb inp k) = bus_adr (state_at fb inp r) \<and>
         px_read (state_at fb inp k) = dat_r (inp r) \<and>
         px_sum (state_at fb inp k) =
           ucast (pixel_byte (subpix_shift (inp r) (state_at fb inp r)) (dat_r (inp r)))"
      by blast
    have a: "fsm (state_at fb inp k) = WRITE" if "r + 3 < k \<and> k \<le> Suc m" for k
    proof (cases "k = Suc m")
      case True then show ?thesis using Suc.prems by simp
    next
      case False then show ?thesis using that r(8) by simp
    qed
    have b: "sample_regs (state_at fb inp k) = sample_regs (state_at fb inp r) \<and>
         bus_adr (state_at fb inp k) = bus_adr (state_at fb inp r) \<and>
         px_read (state_at fb inp k) = dat_r (inp r) \<and>
         px_sum (state_at fb inp k) =
           ucast (pixel_byte (subpix_shift (inp r) (state_at fb inp r)) (dat_r (inp r)))"
      if "r < k \<and> k \<le> Suc m" for k
    proof (cases "k = Suc m")
      case True
      have "r < m \<and> m \<le> m" using r(1) by simp
      with r(9) show ?thesis unfolding True same by blast
    next
      case False then show ?thesis using that r(9) by simp
    qed
    show ?thesis
      apply (rule exI [of _ r])
      using r(1-7) a b by simp
  next
    case False
    from write_onset [OF Suc.prems False] obtain r where r: "m = r + 3"
      "fsm (state_at fb inp r) = READ" "ack (inp r)" "fb_enable (inp r)"
      and e1: "state_at fb inp (r + 1) = (state_at fb inp r)\<lparr>px_read := dat_r (inp r),
        px_sum := ucast (pixel_byte (subpix_shift (inp r) (state_at fb inp r)) (dat_r (inp r))),
        fsm := WAIT\<rparr>"
      and e2: "state_at fb inp (r + 2) = (state_at fb inp (r + 1))\<lparr>fsm := WAIT2\<rparr>"
      and e3: "state_at fb inp (r + 3) = (state_at fb inp (r + 2))\<lparr>fsm := WAIT3\<rparr>"
      and e4: "state_at fb inp (r + 4) = (state_at fb inp (r + 3))\<lparr>fsm := WRITE\<rparr>"
      by blast
    have ks: "k = r + 1 \<or> k = r + 2 \<or> k = r + 3 \<or> k = r + 4" if "r < k \<and> k \<le> Suc m" for k
      using that r(1) by auto
    let ?P = "\<lambda>s. sample_regs s = sample_regs (state_at fb inp r) \<and>
         bus_adr s = bus_adr (state_at fb inp r) \<and>
         px_read s = dat_r (inp r) \<and>
         px_sum s =
           ucast (pixel_byte (subpix_shift (inp r) (state_at fb inp r)) (dat_r (inp r)))"
    have h1: "?P (state_at fb inp (r + 1))"
      unfolding e1 by (simp add: sample_regs_def)
    have h2: "?P (state_at fb inp (r + 2))"
      unfolding e2 e1 by (simp add: sample_regs_def)
    have h3: "?P (state_at fb inp (r + 3))"
      unfolding e3 e2 e1 by (simp add: sample_regs_def)
    have h4: "?P (state_at fb inp (r + 4))"
      unfolding e4 e3 e2 e1 by (simp add: sample_regs_def)
    have held: "?P (state_at fb inp k)"
      if "k = r + 1 \<or> k = r + 2 \<or> k = r + 3 \<or> k = r + 4" for k
      using that h1 h2 h3 h4 by blast
    have f1: "fsm (state_at fb inp (r + 1)) = WAIT" unfolding e1 by simp
    have f2: "fsm (state_at fb inp (r + 2)) = WAIT2" unfolding e2 by simp
    have f3: "fsm (state_at fb inp (r + 3)) = WAIT3" unfolding e3 by simp
    have f4: "fsm (state_at fb inp (r + 4)) = WRITE" unfolding e4 by simp
    have wr: "fsm (state_at fb inp k) = WRITE" if "r + 3 < k \<and> k \<le> Suc m" for k
    proof -
      from that r(1) have "k = r + 4" by simp
      then show ?thesis using f4 by blast
    qed
    have lt: "r + 3 < Suc m" using r(1) by simp
    show ?thesis
      using lt r(2-4) f1 f2 f3 wr held [OF ks] by blast
  qed
qed

lemma busy_origin:
  assumes "busy (state_at fb inp n)"
  shows "\<exists>c<n. captures (inp c) (state_at fb inp c) \<and>
      (\<forall>e. c < e \<and> e < n \<longrightarrow> \<not> retires fb (inp e) (state_at fb inp e)) \<and>
      (\<forall>k. c < k \<and> k \<le> n \<longrightarrow> busy (state_at fb inp k) \<and>
         sample_regs (state_at fb inp k) = sample_regs (latch_sample (inp c) (state_at fb inp c)))"
  using assms
proof (induction n)
  case 0
  then show ?case by (simp add: busy_def)
next
  case (Suc n)
  from busy_pred [of fb "inp n" "state_at fb inp n"] Suc.prems
  consider (new) "captures (inp n) (state_at fb inp n)"
      "state_at fb inp (Suc n) = (latch_sample (inp n) (state_at fb inp n))\<lparr>fsm := LATCH1\<rparr>"
    | (old) "busy (state_at fb inp n)" "\<not> retires fb (inp n) (state_at fb inp n)"
      "sample_regs (state_at fb inp (Suc n)) = sample_regs (state_at fb inp n)"
    by auto
  then show ?case
  proof cases
    case new
    have sr: "sample_regs (state_at fb inp (Suc n)) =
        sample_regs (latch_sample (inp n) (state_at fb inp n))"
      unfolding new(2) by (simp add: sample_regs_def)
    have "\<forall>k. n < k \<and> k \<le> Suc n \<longrightarrow> busy (state_at fb inp k) \<and>
         sample_regs (state_at fb inp k) = sample_regs (latch_sample (inp n) (state_at fb inp n))"
    proof (intro allI impI)
      fix k assume "n < k \<and> k \<le> Suc n"
      then have "k = Suc n" by simp
      then show "busy (state_at fb inp k) \<and>
         sample_regs (state_at fb inp k) = sample_regs (latch_sample (inp n) (state_at fb inp n))"
        using Suc.prems sr by blast
    qed
    moreover have "\<forall>e. n < e \<and> e < Suc n \<longrightarrow> \<not> retires fb (inp e) (state_at fb inp e)"
      by auto
    ultimately show ?thesis using new(1) by blast
  next
    case old
    from Suc.IH [OF old(1)] obtain c where c: "c < n" "captures (inp c) (state_at fb inp c)"
      "\<forall>e. c < e \<and> e < n \<longrightarrow> \<not> retires fb (inp e) (state_at fb inp e)"
      "\<forall>k. c < k \<and> k \<le> n \<longrightarrow> busy (state_at fb inp k) \<and>
         sample_regs (state_at fb inp k) = sample_regs (latch_sample (inp c) (state_at fb inp c))"
      by blast
    have e: "\<not> retires fb (inp e) (state_at fb inp e)" if "c < e \<and> e < Suc n" for e
    proof (cases "e = n")
      case True then show ?thesis using old(2) by simp
    next
      case False then show ?thesis using that c(3) by simp
    qed
    have k: "busy (state_at fb inp k) \<and>
         sample_regs (state_at fb inp k) = sample_regs (latch_sample (inp c) (state_at fb inp c))"
      if "c < k \<and> k \<le> Suc n" for k
    proof (cases "k = Suc n")
      case True
      have "c < n \<and> n \<le> n" using c(1) by simp
      with c(4) have "sample_regs (state_at fb inp n) =
          sample_regs (latch_sample (inp c) (state_at fb inp c))" by blast
      then show ?thesis unfolding True using Suc.prems old(3) by simp
    next
      case False then show ?thesis using that c(4) by simp
    qed
    have "c < Suc n" using c(1) by simp
    then show ?thesis using c(2) e k by blast
  qed
qed

lemma busy_until_retired:
  assumes "captures (inp c) (state_at fb inp c)"
  shows "busy (state_at fb inp (c + 1 + d)) \<or>
     (\<exists>e. c < e \<and> e < c + 1 + d \<and> busy (state_at fb inp e) \<and>
        retires fb (inp e) (state_at fb inp e))"
proof (induction d)
  case 0
  have "state_at fb inp (Suc c) = (latch_sample (inp c) (state_at fb inp c))\<lparr>fsm := LATCH1\<rparr>"
    using captures_succ [OF assms, of fb] by simp
  then have "busy (state_at fb inp (Suc c))" by (simp add: busy_def)
  then show ?case by simp
next
  case (Suc d)
  from Suc.IH show ?case
  proof
    assume b: "busy (state_at fb inp (c + 1 + d))"
    show ?thesis
    proof (cases "retires fb (inp (c + 1 + d)) (state_at fb inp (c + 1 + d))")
      case True
      have "c < c + 1 + d \<and> c + 1 + d < c + 1 + Suc d" by simp
      with b True show ?thesis by blast
    next
      case False
      from busy_succ [OF b False] have "busy (state_at fb inp (Suc (c + 1 + d)))" by simp
      then show ?thesis by simp
    qed
  next
    assume "\<exists>e. c < e \<and> e < c + 1 + d \<and> busy (state_at fb inp e) \<and>
        retires fb (inp e) (state_at fb inp e)"
    then obtain e where "c < e" "e < c + 1 + d" "busy (state_at fb inp e)"
      "retires fb (inp e) (state_at fb inp e)" by blast
    moreover have "e < c + 1 + Suc d" using \<open>e < c + 1 + d\<close> by simp
    ultimately show ?thesis by blast
  qed
qed

lemma retired_between_captures:
  assumes "captures (inp c1) (state_at fb inp c1)" "ready (state_at fb inp c2)" "c1 < c2"
  shows "\<exists>e. c1 < e \<and> e < c2 \<and> busy (state_at fb inp e) \<and>
        retires fb (inp e) (state_at fb inp e)"
proof -
  from assms(3) obtain d where d: "c2 = c1 + 1 + d"
    using less_imp_Suc_add [of c1 c2] by auto
  have "\<not> busy (state_at fb inp c2)" using assms(2) by (simp add: busy_def ready_def)
  with busy_until_retired [OF assms(1), of d] show ?thesis unfolding d by blast
qed

lemma strobes_exclusive:
  "\<not> (ready s \<and> bus_stb s)" "\<not> (read_req s \<and> write_req s)" "bus_stb s \<longrightarrow> busy s"
  by (auto simp: ready_def bus_stb_def read_req_def write_req_def busy_def)

lemma write_after_read:
  assumes "write_req (state_at fb inp m)"
  shows "\<exists>r. r + 3 < m \<and> read_req (state_at fb inp r) \<and> ack (inp r) \<and>
      (\<forall>k. r < k \<and> k \<le> m \<longrightarrow> \<not> read_req (state_at fb inp k) \<and> \<not> ready (state_at fb inp k)) \<and>
      (\<forall>k. r < k \<and> k \<le> r + 3 \<longrightarrow> \<not> bus_stb (state_at fb inp k)) \<and>
      bus_adr (state_at fb inp m) = bus_adr (state_at fb inp r)"
proof -
  from assms have "fsm (state_at fb inp m) = WRITE" by (simp add: write_req_def bus_we_def)
  from write_history [OF this] obtain r where r: "r + 3 < m" "fsm (state_at fb inp r) = READ"
      "ack (inp r)"
      "fsm (state_at fb inp (r + 1)) = WAIT" "fsm (state_at fb inp (r + 2)) = WAIT2"
      "fsm (state_at fb inp (r + 3)) = WAIT3"
      "\<forall>k. r + 3 < k \<and> k \<le> m \<longrightarrow> fsm (state_at fb inp k) = WRITE"
      "\<forall>k. r < k \<and> k \<le> m \<longrightarrow>
         sample_regs (state_at fb inp k) = sample_regs (state_at fb inp r) \<and>
         bus_adr (state_at fb inp k) = bus_adr (state_at fb inp r) \<and>
         px_read (state_at fb inp k) = dat_r (inp r) \<and>
         px_sum (state_at fb inp k) =
           ucast (pixel_byte (subpix_shift (inp r) (state_at fb inp r)) (dat_r (inp r)))"
    by blast
  have ph: "fsm (state_at fb inp k) \<in> {WAIT, WAIT2, WAIT3, WRITE}" if "r < k \<and> k \<le> m" for k
  proof -
    from that have "k = r + 1 \<or> k = r + 2 \<or> k = r + 3 \<or> r + 3 < k \<and> k \<le> m" by auto
    then show ?thesis using r(4-7) by auto
  qed
  have a: "\<not> read_req (state_at fb inp k) \<and> \<not> ready (state_at fb inp k)"
    if "r < k \<and> k \<le> m" for k
    using ph [OF that] by (auto simp: read_req_def ready_def bus_we_def bus_stb_def)
  have b: "\<not> bus_stb (state_at fb inp k)" if "r < k \<and> k \<le> r + 3" for k
  proof -
    from that have "k = r + 1 \<or> k = r + 2 \<or> k = r + 3" by auto
    then show ?thesis using r(4-6) by (auto simp: bus_stb_def)
  qed
  have c: "bus_adr (state_at fb inp m) = bus_adr (state_at fb inp r)"
    using r(1,8) by simp
  have "read_req (state_at fb inp r)"
    using r(2) by (simp add: read_req_def bus_stb_def bus_cyc_def bus_we_def)
  then show ?thesis using r(1,3) a b c by blast
qed

text \<open>
  Claim C3. On every run from power-up, under any inputs: no cycle has both a read and a
  write request, or a request together with \<open>ready\<close>, and a request is only made for a
  latched point. Every cycle with a write request is preceded by the acknowledged read
  request of the same transaction, at least four cycles earlier, with the three drain
  cycles after it free of any strobe, no read request and no \<open>ready\<close> in between, and
  the same address. Every cycle in which a point is latched goes back to the one capture of
  that point, with no retirement since and the four sample registers as latched then.
  Between two captures the earlier point is retired: written, dropped by the bounds check,
  or cleared by the reset. So the transactions of distinct points never overlap.
\<close>

theorem transactions_serialised:
  "(\<not> (ready (state_at fb inp n) \<and> bus_stb (state_at fb inp n)) \<and>
    \<not> (read_req (state_at fb inp n) \<and> write_req (state_at fb inp n)) \<and>
    (bus_stb (state_at fb inp n) \<longrightarrow> busy (state_at fb inp n))) \<and>
   (write_req (state_at fb inp m) \<longrightarrow>
      (\<exists>r. r + 3 < m \<and> read_req (state_at fb inp r) \<and> ack (inp r) \<and>
        (\<forall>k. r < k \<and> k \<le> m \<longrightarrow>
           \<not> read_req (state_at fb inp k) \<and> \<not> ready (state_at fb inp k)) \<and>
        (\<forall>k. r < k \<and> k \<le> r + 3 \<longrightarrow> \<not> bus_stb (state_at fb inp k)) \<and>
        bus_adr (state_at fb inp m) = bus_adr (state_at fb inp r))) \<and>
   (busy (state_at fb inp n) \<longrightarrow>
      (\<exists>c<n. captures (inp c) (state_at fb inp c) \<and>
        (\<forall>e. c < e \<and> e < n \<longrightarrow> \<not> retires fb (inp e) (state_at fb inp e)) \<and>
        (\<forall>k. c < k \<and> k \<le> n \<longrightarrow> busy (state_at fb inp k) \<and>
           sample_regs (state_at fb inp k) =
             sample_regs (latch_sample (inp c) (state_at fb inp c))))) \<and>
   (captures (inp c1) (state_at fb inp c1) \<and> captures (inp c2) (state_at fb inp c2) \<and> c1 < c2 \<longrightarrow>
      (\<exists>e. c1 < e \<and> e < c2 \<and> busy (state_at fb inp e) \<and>
        retires fb (inp e) (state_at fb inp e))) \<and>
   (busy (state_at fb inp n) \<and> \<not> retires fb (inp n) (state_at fb inp n) \<longrightarrow>
      busy (state_at fb inp (Suc n)) \<and>
      sample_regs (state_at fb inp (Suc n)) = sample_regs (state_at fb inp n))"
proof (intro conjI impI)
  show "\<not> (ready (state_at fb inp n) \<and> bus_stb (state_at fb inp n))"
    "\<not> (read_req (state_at fb inp n) \<and> write_req (state_at fb inp n))"
    by (rule strobes_exclusive)+
  show "busy (state_at fb inp n)" if "bus_stb (state_at fb inp n)"
    using that strobes_exclusive(3) by blast
  show "\<exists>r. r + 3 < m \<and> read_req (state_at fb inp r) \<and> ack (inp r) \<and>
        (\<forall>k. r < k \<and> k \<le> m \<longrightarrow>
           \<not> read_req (state_at fb inp k) \<and> \<not> ready (state_at fb inp k)) \<and>
        (\<forall>k. r < k \<and> k \<le> r + 3 \<longrightarrow> \<not> bus_stb (state_at fb inp k)) \<and>
        bus_adr (state_at fb inp m) = bus_adr (state_at fb inp r)"
    if "write_req (state_at fb inp m)"
    by (rule write_after_read [OF that])
  show "\<exists>c<n. captures (inp c) (state_at fb inp c) \<and>
        (\<forall>e. c < e \<and> e < n \<longrightarrow> \<not> retires fb (inp e) (state_at fb inp e)) \<and>
        (\<forall>k. c < k \<and> k \<le> n \<longrightarrow> busy (state_at fb inp k) \<and>
           sample_regs (state_at fb inp k) =
             sample_regs (latch_sample (inp c) (state_at fb inp c)))"
    if "busy (state_at fb inp n)"
    by (rule busy_origin [OF that])
  show "\<exists>e. c1 < e \<and> e < c2 \<and> busy (state_at fb inp e) \<and>
        retires fb (inp e) (state_at fb inp e)"
    if "captures (inp c1) (state_at fb inp c1) \<and> captures (inp c2) (state_at fb inp c2) \<and> c1 < c2"
    using that retired_between_captures [of inp c1 fb c2] by (simp add: captures_def)
  assume a: "busy (state_at fb inp n) \<and> \<not> retires fb (inp n) (state_at fb inp n)"
  then show "busy (state_at fb inp (Suc n))"
    "sample_regs (state_at fb inp (Suc n)) = sample_regs (state_at fb inp n)"
    using busy_succ [of "state_at fb inp n" fb "inp n"] by simp_all
qed

lemma state_at_next:
  "m = Suc n \<Longrightarrow> state_at fb inp m = step fb (inp n) (state_at fb inp n)"
  by simp

lemma steady_1: "state_at scenario_fb steady 1 = idle_state"
  by (simp add: steady_def step_def fsm_step_def scenario_inputs_def idle_state_def)

lemma steady_2: "state_at scenario_fb steady 2 = origin_latched"
  unfolding state_at_next [of 2 1, simplified] steady_1
  by (simp add: steady_def step_def fsm_step_def scenario_inputs_def idle_state_def
      origin_latched_def)

lemma steady_3:
  "state_at scenario_fb steady 3 = origin_latched\<lparr>bus_sel := 0xF, bus_adr := 264, fsm := READ\<rparr>"
  unfolding state_at_next [of 3 2, simplified] steady_2 steady_def
  using accept_step [OF origin_facts(2) scenario_facts(2) origin_in_bounds]
  by (simp add: pixel_offs_def origin_offs origin_facts)

lemma steady_4:
  "state_at scenario_fb steady 4 = origin_latched\<lparr>bus_sel := 0xF, bus_adr := 264,
     px_read := 0x11223A44, px_sum := 0x44, fsm := WAIT\<rparr>"
  unfolding state_at_next [of 4 3, simplified] steady_3 steady_def
  by (simp add: step_def fsm_step_def bus_stb_def scenario_inputs_def subpix_shift_def
      origin_latched_def latch_sample_def)

lemma steady_7:
  "state_at scenario_fb steady 7 = origin_latched\<lparr>bus_sel := 0xF, bus_adr := 264,
     px_read := 0x11223A44, px_sum := 0x44, fsm := WRITE\<rparr>"
  unfolding state_at_next [of 7 6, simplified] state_at_next [of 6 5, simplified]
    state_at_next [of 5 4, simplified] steady_4 steady_def
  by (simp add: step_def fsm_step_def scenario_inputs_def)

lemma steady_8:
  "state_at scenario_fb steady 8 = origin_latched\<lparr>bus_sel := 0xF, bus_adr := 264,
     px_read := 0x11223A44, px_sum := 0x44, fsm := LATCH0\<rparr>"
  unfolding state_at_next [of 8 7, simplified] steady_7 steady_def
  by (simp add: step_def fsm_step_def scenario_inputs_def bus_stb_def)

theorem transactions_serialised_witness:
  "write_req (state_at scenario_fb steady 7) \<and> busy (state_at scenario_fb steady 7) \<and>
   bus_stb (state_at scenario_fb steady 7) \<and>
   captures (steady 1) (state_at scenario_fb steady 1) \<and>
   captures (steady 8) (state_at scenario_fb steady 8) \<and> (1::nat) < 8 \<and>
   busy (state_at scenario_fb steady 3) \<and>
   \<not> retires scenario_fb (steady 3) (state_at scenario_fb steady 3) \<and>
   \<not> (ready (state_at scenario_fb steady 7) \<and> bus_stb (state_at scenario_fb steady 7)) \<and>
   (\<exists>r. r + 3 < 7 \<and> read_req (state_at scenario_fb steady r) \<and> ack (steady r) \<and>
      bus_adr (state_at scenario_fb steady 7) = bus_adr (state_at scenario_fb steady r)) \<and>
   (\<exists>c<7. captures (steady c) (state_at scenario_fb steady c) \<and>
      sample_regs (state_at scenario_fb steady 7) =
        sample_regs (latch_sample (steady c) (state_at scenario_fb steady c))) \<and>
   (\<exists>e. 1 < e \<and> e < 8 \<and> busy (state_at scenario_fb steady e) \<and>
      retires scenario_fb (steady e) (state_at scenario_fb steady e)) \<and>
   busy (state_at scenario_fb steady (Suc 3)) \<and>
   sample_regs (state_at scenario_fb steady (Suc 3)) = sample_regs (state_at scenario_fb steady 3)"
proof -
  have h7: "write_req (state_at scenario_fb steady 7)" "busy (state_at scenario_fb steady 7)"
    "bus_stb (state_at scenario_fb steady 7)"
    unfolding steady_7 by (simp_all add: write_req_def busy_def bus_stb_def bus_cyc_def bus_we_def)
  have c1: "captures (steady 1) (state_at scenario_fb steady 1)"
    unfolding steady_1 by (simp add: captures_def ready_def steady_def scenario_inputs_def idle_state_def)
  have c8: "captures (steady 8) (state_at scenario_fb steady 8)"
    unfolding steady_8 by (simp add: captures_def ready_def steady_def scenario_inputs_def)
  have h3: "busy (state_at scenario_fb steady 3)"
    "\<not> retires scenario_fb (steady 3) (state_at scenario_fb steady 3)"
    unfolding steady_3
    by (simp_all add: busy_def retires_def write_req_def bus_we_def steady_def scenario_inputs_def)
  note t7 = transactions_serialised [where fb = scenario_fb and inp = steady and n = 7
      and m = 7 and ?c1.0 = 1 and ?c2.0 = 8]
  note t3 = transactions_serialised [where fb = scenario_fb and inp = steady and n = 3
      and m = 7 and ?c1.0 = 1 and ?c2.0 = 8]
  have a: "\<not> (ready (state_at scenario_fb steady 7) \<and> bus_stb (state_at scenario_fb steady 7))"
    using t7 by blast
  have b: "\<exists>r. r + 3 < 7 \<and> read_req (state_at scenario_fb steady r) \<and> ack (steady r) \<and>
      bus_adr (state_at scenario_fb steady 7) = bus_adr (state_at scenario_fb steady r)"
    using t7 h7(1) by blast
  have "\<exists>c<7. captures (steady c) (state_at scenario_fb steady c) \<and>
        (\<forall>e. c < e \<and> e < 7 \<longrightarrow> \<not> retires scenario_fb (steady e) (state_at scenario_fb steady e)) \<and>
        (\<forall>k. c < k \<and> k \<le> 7 \<longrightarrow> busy (state_at scenario_fb steady k) \<and>
           sample_regs (state_at scenario_fb steady k) =
             sample_regs (latch_sample (steady c) (state_at scenario_fb steady c)))"
    using t7 h7(2) by blast
  then obtain c where c: "c < 7" "captures (steady c) (state_at scenario_fb steady c)"
    "\<forall>k. c < k \<and> k \<le> 7 \<longrightarrow> busy (state_at scenario_fb steady k) \<and>
           sample_regs (state_at scenario_fb steady k) =
             sample_regs (latch_sample (steady c) (state_at scenario_fb steady c))"
    by blast
  from c(1,3) have "sample_regs (state_at scenario_fb steady 7) =
             sample_regs (latch_sample (steady c) (state_at scenario_fb steady c))" by simp
  with c(1,2) have d: "\<exists>c<7. captures (steady c) (state_at scenario_fb steady c) \<and>
      sample_regs (state_at scenario_fb steady 7) =
        sample_regs (latch_sample (steady c) (state_at scenario_fb steady c))" by blast
  have e: "\<exists>e. 1 < e \<and> e < 8 \<and> busy (state_at scenario_fb steady e) \<and>
      retires scenario_fb (steady e) (state_at scenario_fb steady e)"
    using t7 c1 c8 by simp
  have f: "busy (state_at scenario_fb steady (Suc 3))"
    "sample_regs (state_at scenario_fb steady (Suc 3)) = sample_regs (state_at scenario_fb steady 3)"
    using t3 h3 by blast+
  show ?thesis using h7 c1 c8 h3 a b d e f by simp
qed

subsection \<open>The latency drain and the shift of a transaction\<close>

lemma drain_forward:
  assumes "fsm s = READ" "ack i0" "fb_enable i0" "fb_enable i1" "fb_enable i2" "fb_enable i3"
  shows "fsm (step fb i0 s) = WAIT" "fsm (step fb i1 (step fb i0 s)) = WAIT2"
    "fsm (step fb i2 (step fb i1 (step fb i0 s))) = WAIT3"
    "fsm (step fb i3 (step fb i2 (step fb i1 (step fb i0 s)))) = WRITE"
proof -
  show 1: "fsm (step fb i0 s) = WAIT"
    using assms(1-3) by (simp add: step_def fsm_step_def bus_stb_def)
  show 2: "fsm (step fb i1 (step fb i0 s)) = WAIT2"
    using 1 assms(4) by (simp add: step_def [of fb i1] fsm_step_def [of fb i1])
  show 3: "fsm (step fb i2 (step fb i1 (step fb i0 s))) = WAIT3"
    using 2 assms(5) by (simp add: step_def [of fb i2] fsm_step_def [of fb i2])
  show "fsm (step fb i3 (step fb i2 (step fb i1 (step fb i0 s)))) = WRITE"
    using 3 assms(6) by (simp add: step_def [of fb i3] fsm_step_def [of fb i3])
qed

lemma idle_phase: "fsm s = WAIT \<or> fsm s = WAIT2 \<or> fsm s = WAIT3 \<Longrightarrow> \<not> bus_stb s \<and> \<not> bus_cyc s"
  by (auto simp: bus_stb_def bus_cyc_def)

text \<open>
  Claim C7. From the cycle in which the read is acknowledged, whatever the bus answers
  afterwards, the engine passes through exactly three states, \<open>WAIT\<close>, \<open>WAIT2\<close> and
  \<open>WAIT3\<close>, in which neither strobe nor cycle is asserted, and asserts the write
  request in the cycle after them. On every run from power-up, each first cycle of a write
  request comes exactly four cycles after the acknowledged read request, with those three
  idle states in between. The framebuffer is enabled during the drain; the reset would
  abandon the transaction.
\<close>

theorem latency_drain_is_three_cycles:
  "(fsm s = READ \<and> ack i0 \<and> fb_enable i0 \<and> fb_enable i1 \<and> fb_enable i2 \<and> fb_enable i3 \<longrightarrow>
      fsm (step fb i0 s) = WAIT \<and>
      fsm (step fb i1 (step fb i0 s)) = WAIT2 \<and>
      fsm (step fb i2 (step fb i1 (step fb i0 s))) = WAIT3 \<and>
      \<not> bus_stb (step fb i0 s) \<and> \<not> bus_cyc (step fb i0 s) \<and>
      \<not> bus_stb (step fb i1 (step fb i0 s)) \<and> \<not> bus_cyc (step fb i1 (step fb i0 s)) \<and>
      \<not> bus_stb (step fb i2 (step fb i1 (step fb i0 s))) \<and>
      \<not> bus_cyc (step fb i2 (step fb i1 (step fb i0 s))) \<and>
      write_req (step fb i3 (step fb i2 (step fb i1 (step fb i0 s))))) \<and>
   (write_req (state_at fb inp (Suc m)) \<and> \<not> write_req (state_at fb inp m) \<longrightarrow>
      (\<exists>r. m = r + 3 \<and> read_req (state_at fb inp r) \<and> ack (inp r) \<and>
         fsm (state_at fb inp (r + 1)) = WAIT \<and> fsm (state_at fb inp (r + 2)) = WAIT2 \<and>
         fsm (state_at fb inp (r + 3)) = WAIT3 \<and>
         \<not> bus_stb (state_at fb inp (r + 1)) \<and> \<not> bus_stb (state_at fb inp (r + 2)) \<and>
         \<not> bus_stb (state_at fb inp (r + 3))))"
proof (intro conjI impI)
  assume a: "fsm s = READ \<and> ack i0 \<and> fb_enable i0 \<and> fb_enable i1 \<and> fb_enable i2 \<and> fb_enable i3"
  then have f: "fsm (step fb i0 s) = WAIT" "fsm (step fb i1 (step fb i0 s)) = WAIT2"
    "fsm (step fb i2 (step fb i1 (step fb i0 s))) = WAIT3"
    "fsm (step fb i3 (step fb i2 (step fb i1 (step fb i0 s)))) = WRITE"
    using drain_forward [of s i0 i1 i2 i3 fb] by simp_all
  show "fsm (step fb i0 s) = WAIT" "fsm (step fb i1 (step fb i0 s)) = WAIT2"
    "fsm (step fb i2 (step fb i1 (step fb i0 s))) = WAIT3"
    by (rule f)+
  show "\<not> bus_stb (step fb i0 s)" "\<not> bus_cyc (step fb i0 s)"
    "\<not> bus_stb (step fb i1 (step fb i0 s))" "\<not> bus_cyc (step fb i1 (step fb i0 s))"
    "\<not> bus_stb (step fb i2 (step fb i1 (step fb i0 s)))"
    "\<not> bus_cyc (step fb i2 (step fb i1 (step fb i0 s)))"
    using f(1-3) by (simp_all add: bus_stb_def bus_cyc_def)
  show "write_req (step fb i3 (step fb i2 (step fb i1 (step fb i0 s))))"
    using f(4) by (simp add: write_req_def bus_stb_def bus_cyc_def bus_we_def)
next
  assume a: "write_req (state_at fb inp (Suc m)) \<and> \<not> write_req (state_at fb inp m)"
  then have w: "fsm (state_at fb inp (Suc m)) = WRITE" "fsm (state_at fb inp m) \<noteq> WRITE"
    by (auto simp add: write_req_def bus_stb_def bus_cyc_def bus_we_def simp del: state_at.simps)
  from write_onset [OF w] obtain r where r: "m = r + 3"
      "fsm (state_at fb inp r) = READ" "ack (inp r)"
      and e1: "state_at fb inp (r + 1) = (state_at fb inp r)\<lparr>px_read := dat_r (inp r),
        px_sum := ucast (pixel_byte (subpix_shift (inp r) (state_at fb inp r)) (dat_r (inp r))),
        fsm := WAIT\<rparr>"
      and e2: "state_at fb inp (r + 2) = (state_at fb inp (r + 1))\<lparr>fsm := WAIT2\<rparr>"
      and e3: "state_at fb inp (r + 3) = (state_at fb inp (r + 2))\<lparr>fsm := WAIT3\<rparr>"
    by blast
  have f1: "fsm (state_at fb inp (r + 1)) = WAIT" unfolding e1 by simp
  have f2: "fsm (state_at fb inp (r + 2)) = WAIT2" unfolding e2 by simp
  have f3: "fsm (state_at fb inp (r + 3)) = WAIT3" unfolding e3 by simp
  have rr: "read_req (state_at fb inp r)"
    using r(2) by (simp add: read_req_def bus_stb_def bus_cyc_def bus_we_def)
  have "\<not> bus_stb (state_at fb inp (r + 1))" "\<not> bus_stb (state_at fb inp (r + 2))"
    "\<not> bus_stb (state_at fb inp (r + 3))"
    using f1 f2 f3 idle_phase by blast+
  then show "\<exists>r. m = r + 3 \<and> read_req (state_at fb inp r) \<and> ack (inp r) \<and>
         fsm (state_at fb inp (r + 1)) = WAIT \<and> fsm (state_at fb inp (r + 2)) = WAIT2 \<and>
         fsm (state_at fb inp (r + 3)) = WAIT3 \<and>
         \<not> bus_stb (state_at fb inp (r + 1)) \<and> \<not> bus_stb (state_at fb inp (r + 2)) \<and>
         \<not> bus_stb (state_at fb inp (r + 3))"
    using r(1,3) rr f1 f2 f3 by blast
qed

lemma steady_6:
  "state_at scenario_fb steady 6 = origin_latched\<lparr>bus_sel := 0xF, bus_adr := 264,
     px_read := 0x11223A44, px_sum := 0x44, fsm := WAIT3\<rparr>"
  unfolding state_at_next [of 6 5, simplified]
    state_at_next [of 5 4, simplified] steady_4 steady_def
  by (simp add: step_def fsm_step_def scenario_inputs_def)

theorem latency_drain_is_three_cycles_witness:
  "fsm read_state = READ \<and> ack scenario_inputs \<and> fb_enable scenario_inputs \<and>
   fsm (step scenario_fb scenario_inputs read_state) = WAIT \<and>
   \<not> bus_stb (step scenario_fb scenario_inputs read_state) \<and>
   write_req (step scenario_fb scenario_inputs (step scenario_fb scenario_inputs
     (step scenario_fb scenario_inputs (step scenario_fb scenario_inputs read_state)))) \<and>
   write_req (state_at scenario_fb steady (Suc 6)) \<and> \<not> write_req (state_at scenario_fb steady 6) \<and>
   (\<exists>r. 6 = r + 3 \<and> read_req (state_at scenario_fb steady r) \<and> ack (steady r) \<and>
      \<not> bus_stb (state_at scenario_fb steady (r + 1)) \<and>
      \<not> bus_stb (state_at scenario_fb steady (r + 2)) \<and>
      \<not> bus_stb (state_at scenario_fb steady (r + 3)))"
proof -
  have s7: "state_at scenario_fb steady (Suc 6) = state_at scenario_fb steady 7"
    by (simp only: state_at_next [of 7 6, simplified] state_at.simps)
  have w7: "write_req (state_at scenario_fb steady (Suc 6))"
    unfolding s7 steady_7 by (simp add: write_req_def bus_stb_def bus_cyc_def bus_we_def)
  have w6: "\<not> write_req (state_at scenario_fb steady 6)"
    unfolding steady_6 by (simp add: write_req_def bus_we_def)
  note t = latency_drain_is_three_cycles [where s = read_state and ?i0.0 = scenario_inputs
      and ?i1.0 = scenario_inputs and ?i2.0 = scenario_inputs and ?i3.0 = scenario_inputs
      and fb = scenario_fb and inp = steady and m = 6]
  have h: "fsm read_state = READ" "ack scenario_inputs" "fb_enable scenario_inputs"
    by (simp_all add: read_state_fields scenario_facts)
  have a: "fsm (step scenario_fb scenario_inputs read_state) = WAIT"
    "\<not> bus_stb (step scenario_fb scenario_inputs read_state)"
    "write_req (step scenario_fb scenario_inputs (step scenario_fb scenario_inputs
     (step scenario_fb scenario_inputs (step scenario_fb scenario_inputs read_state))))"
    using t h by blast+
  have b: "\<exists>r. 6 = r + 3 \<and> read_req (state_at scenario_fb steady r) \<and> ack (steady r) \<and>
      \<not> bus_stb (state_at scenario_fb steady (r + 1)) \<and>
      \<not> bus_stb (state_at scenario_fb steady (r + 2)) \<and>
      \<not> bus_stb (state_at scenario_fb steady (r + 3))"
    using t w7 w6 by blast
  show ?thesis using h a w7 w6 b by blast
qed

lemma address_held:
  assumes "fsm s = READ" "fb_enable i"
  shows "bus_adr (step fb i s) = bus_adr s"
  using assms by (simp add: step_def fsm_step_def)

lemma shift_at_write:
  assumes "write_req (state_at fb inp m)"
  shows "\<exists>r. r + 3 < m \<and> read_req (state_at fb inp r) \<and> ack (inp r) \<and>
      px_read (state_at fb inp m) = dat_r (inp r) \<and>
      px_sum (state_at fb inp m) =
        ucast (pixel_byte (subpix_shift (inp r) (state_at fb inp r)) (dat_r (inp r))) \<and>
      bus_adr (state_at fb inp m) = bus_adr (state_at fb inp r) \<and>
      (rotate_left (inp m) = rotate_left (inp r) \<longrightarrow>
         subpix_shift (inp m) (state_at fb inp m) = subpix_shift (inp r) (state_at fb inp r))"
proof -
  from assms have "fsm (state_at fb inp m) = WRITE" by (simp add: write_req_def bus_we_def)
  from write_history [OF this] obtain r where r: "r + 3 < m" "fsm (state_at fb inp r) = READ"
      "ack (inp r)"
      "\<forall>k. r < k \<and> k \<le> m \<longrightarrow>
         sample_regs (state_at fb inp k) = sample_regs (state_at fb inp r) \<and>
         bus_adr (state_at fb inp k) = bus_adr (state_at fb inp r) \<and>
         px_read (state_at fb inp k) = dat_r (inp r) \<and>
         px_sum (state_at fb inp k) =
           ucast (pixel_byte (subpix_shift (inp r) (state_at fb inp r)) (dat_r (inp r)))"
    by blast
  have "r < m \<and> m \<le> m" using r(1) by simp
  with r(4) have h: "sample_regs (state_at fb inp m) = sample_regs (state_at fb inp r)"
    "bus_adr (state_at fb inp m) = bus_adr (state_at fb inp r)"
    "px_read (state_at fb inp m) = dat_r (inp r)"
    "px_sum (state_at fb inp m) =
       ucast (pixel_byte (subpix_shift (inp r) (state_at fb inp r)) (dat_r (inp r)))"
    by blast+
  from h(1) have xy: "sample_x (state_at fb inp m) = sample_x (state_at fb inp r)"
    "sample_y (state_at fb inp m) = sample_y (state_at fb inp r)"
    by (simp_all add: sample_regs_def)
  have sh: "subpix_shift (inp m) (state_at fb inp m) = subpix_shift (inp r) (state_at fb inp r)"
    if "rotate_left (inp m) = rotate_left (inp r)"
    by (rule position_cong(1) [OF that xy])
  have "read_req (state_at fb inp r)"
    using r(2) by (simp add: read_req_def bus_stb_def bus_cyc_def bus_we_def)
  then show ?thesis using r(1,3) h(2-4) sh by blast
qed

lemma turned_facts:
  "rotate_left turned" "subpix_shift turned write_state = 0"
  "new_color turned write_state = 5"
  by (simp_all add: turned_def scenario_inputs_def subpix_shift_def write_state_def
      read_state_def reset_state_def new_color_def)

lemma turned_payload: "bus_dat_w turned write_state = 0x11223AB5"
  unfolding bus_dat_w_min [OF write_state_fields(1)] turned_facts write_state_fields
  by (simp add: Cat_def)

text \<open>
  Claim C10. The sub-word shift is a function of the latched coordinates and of the
  rotation flag of the cycle that uses it. The bounds check registers the address, which the
  following cycles hold, but no shift. In every cycle with a write request, the word and the
  byte held in \<open>px_read\<close> and \<open>px_sum\<close> are those of the acknowledged read of the same
  transaction, extracted at the shift of that read cycle, and if the rotation flag is the
  same in both cycles the shift of the write is that shift. If the flag differs they can
  differ: the engine that read for the point (1, 0) at shift 8 and writes with the flag
  set inserts at shift 0, giving the payload \<open>0x11223AB5\<close> for the word \<open>0x11223A44\<close>.
\<close>

theorem shift_follows_rotation_flag:
  "(rotate_left i = rotate_left i' \<and> sample_x s = sample_x s' \<and> sample_y s = sample_y s' \<longrightarrow>
      subpix_shift i s = subpix_shift i' s') \<and>
   (fsm s = LATCH1 \<and> fb_enable i \<and> in_bounds fb i s \<and> fb_enable i' \<longrightarrow>
      bus_adr (step fb i' (step fb i s)) = bus_adr (step fb i s) \<and>
      subpix_shift i' (step fb i s) = subpix_shift i' s) \<and>
   (write_req (state_at fb inp m) \<longrightarrow>
      (\<exists>r. r + 3 < m \<and> read_req (state_at fb inp r) \<and> ack (inp r) \<and>
         px_read (state_at fb inp m) = dat_r (inp r) \<and>
         px_sum (state_at fb inp m) =
           ucast (pixel_byte (subpix_shift (inp r) (state_at fb inp r)) (dat_r (inp r))) \<and>
         bus_adr (state_at fb inp m) = bus_adr (state_at fb inp r) \<and>
         (rotate_left (inp m) = rotate_left (inp r) \<longrightarrow>
            subpix_shift (inp m) (state_at fb inp m) =
              subpix_shift (inp r) (state_at fb inp r)))) \<and>
   step scenario_fb scenario_inputs (step scenario_fb scenario_inputs
     (step scenario_fb scenario_inputs (step scenario_fb scenario_inputs read_state))) = write_state \<and>
   subpix_shift scenario_inputs read_state = 8 \<and>
   subpix_shift turned write_state = 0 \<and>
   bus_dat_w turned write_state = 0x11223AB5"
proof (intro conjI impI)
  show "subpix_shift i s = subpix_shift i' s'"
    if "rotate_left i = rotate_left i' \<and> sample_x s = sample_x s' \<and> sample_y s = sample_y s'"
    using that position_cong(1) [of i i' s s'] by simp
next
  assume a: "fsm s = LATCH1 \<and> fb_enable i \<and> in_bounds fb i s \<and> fb_enable i'"
  then have st: "step fb i s = s\<lparr>bus_sel := 0xF,
      bus_adr := (fb_base fb + unat (pixel_offs fb i s)) mod 2 ^ addr_width fb, fsm := READ\<rparr>"
    by (simp add: accept_step)
  have "fsm (step fb i s) = READ" unfolding st by simp
  then show "bus_adr (step fb i' (step fb i s)) = bus_adr (step fb i s)"
    using a by (simp add: address_held)
  show "subpix_shift i' (step fb i s) = subpix_shift i' s"
    unfolding st by (rule position_cong(1)) simp_all
next
  show "\<exists>r. r + 3 < m \<and> read_req (state_at fb inp r) \<and> ack (inp r) \<and>
         px_read (state_at fb inp m) = dat_r (inp r) \<and>
         px_sum (state_at fb inp m) =
           ucast (pixel_byte (subpix_shift (inp r) (state_at fb inp r)) (dat_r (inp r))) \<and>
         bus_adr (state_at fb inp m) = bus_adr (state_at fb inp r) \<and>
         (rotate_left (inp m) = rotate_left (inp r) \<longrightarrow>
            subpix_shift (inp m) (state_at fb inp m) =
              subpix_shift (inp r) (state_at fb inp r))"
    if "write_req (state_at fb inp m)"
    by (rule shift_at_write [OF that])
next
  show "step scenario_fb scenario_inputs (step scenario_fb scenario_inputs
     (step scenario_fb scenario_inputs (step scenario_fb scenario_inputs read_state))) = write_state"
    by (rule read_to_write)
  show "subpix_shift scenario_inputs read_state = 8" by (rule read_state_fields)
  show "subpix_shift turned write_state = 0" by (rule turned_facts)
  show "bus_dat_w turned write_state = 0x11223AB5" by (rule turned_payload)
qed

theorem shift_follows_rotation_flag_witness:
  "rotate_left scenario_inputs = rotate_left retuned \<and>
   sample_x read_state = sample_x write_state \<and> sample_y read_state = sample_y write_state \<and>
   subpix_shift scenario_inputs read_state = subpix_shift retuned write_state \<and>
   fsm origin_latched = LATCH1 \<and> fb_enable scenario_inputs \<and>
   in_bounds scenario_fb scenario_inputs origin_latched \<and> fb_enable turned \<and>
   bus_adr (step scenario_fb turned (step scenario_fb scenario_inputs origin_latched)) =
     bus_adr (step scenario_fb scenario_inputs origin_latched) \<and>
   write_req (state_at scenario_fb steady 7) \<and>
   (\<exists>r. r + 3 < 7 \<and> read_req (state_at scenario_fb steady r) \<and> ack (steady r) \<and>
      px_read (state_at scenario_fb steady 7) = dat_r (steady r) \<and>
      subpix_shift (steady 7) (state_at scenario_fb steady 7) =
        subpix_shift (steady r) (state_at scenario_fb steady r))"
proof -
  have h1: "rotate_left scenario_inputs = rotate_left retuned"
    "sample_x read_state = sample_x write_state" "sample_y read_state = sample_y write_state"
    by (simp_all add: retuned_def write_state_def)
  have h2: "fb_enable turned" by (simp add: turned_def scenario_inputs_def)
  have h3: "write_req (state_at scenario_fb steady 7)"
    unfolding steady_7 by (simp add: write_req_def bus_stb_def bus_cyc_def bus_we_def)
  have h4: "rotate_left (steady 7) = rotate_left (steady r)" for r
    by (simp add: steady_def)
  note t = shift_follows_rotation_flag [where i = scenario_inputs and i' = retuned
      and s = read_state and s' = write_state and fb = scenario_fb and inp = steady and m = 7]
  note u = shift_follows_rotation_flag [where i = scenario_inputs and i' = turned
      and s = origin_latched and s' = origin_latched and fb = scenario_fb and inp = steady and m = 7]
  have a: "subpix_shift scenario_inputs read_state = subpix_shift retuned write_state"
    using t h1 by blast
  have b: "bus_adr (step scenario_fb turned (step scenario_fb scenario_inputs origin_latched)) =
     bus_adr (step scenario_fb scenario_inputs origin_latched)"
    using u origin_facts(2) scenario_facts(2) origin_in_bounds h2 by blast
  have c: "\<exists>r. r + 3 < 7 \<and> read_req (state_at scenario_fb steady r) \<and> ack (steady r) \<and>
      px_read (state_at scenario_fb steady 7) = dat_r (steady r) \<and>
      subpix_shift (steady 7) (state_at scenario_fb steady 7) =
        subpix_shift (steady r) (state_at scenario_fb steady r)"
    using t h3 h4 by blast
  show ?thesis
    using h1 a origin_facts(2) scenario_facts(2) origin_in_bounds h2 b h3 c by blast
qed

subsection \<open>Accumulation of intensity on every run\<close>

lemma toggled_run:
  "sys_run scenario_fb (idle_state, \<lambda>a. 0x11223A44)
      [one_zero, one_zero, one_zero, one_zero, one_zero, one_zero, one_zero_turned] =
    (reset_state\<lparr>sample_x := 1, sample_intensity := 8, px_read := 0x11223A44, px_sum := 0x3A,
       bus_sel := 0xF, bus_adr := 264, fsm := LATCH0\<rparr>,
     (\<lambda>a. 0x11223A44)(264 := 0x11223AB5))"
  apply (simp add: sys_run_Cons sys_run_Nil
   sys_step_def step_def fsm_step_def mem_step_def one_zero_def one_zero_turned_def scenario_inputs_def
   idle_state_def reset_state_def scenario_fb_def latch_sample_def in_bounds_def x_offs_def y_offs_def
   pixel_offs_def fb_hwords_def subpix_shift_def write_req_def bus_stb_def bus_cyc_def bus_we_def
   bus_dat_w_def intensity_sum_def px_sum_4_8_def new_color_def Cat_def white_def sel_mask_def)
  done

lemma px_sum_4_8_byte:
  "px_sum s = ucast (pixel_byte sh w) \<Longrightarrow> px_sum_4_8 s = bits_7_4 (pixel_byte sh w)"
  by (simp add: px_sum_4_8_def unat_ucast_pixel_byte bits_7_4_arith)

lemma write_provenance:
  assumes "write_req (state_at fb inp w)"
  shows "\<exists>c r. c < r \<and> r + 3 < w \<and> captures (inp c) (state_at fb inp c) \<and>
      read_req (state_at fb inp r) \<and> ack (inp r) \<and>
      bus_adr (state_at fb inp w) = bus_adr (state_at fb inp r) \<and>
      sample_x (state_at fb inp w) = sample_x (state_at fb inp r) \<and>
      sample_y (state_at fb inp w) = sample_y (state_at fb inp r) \<and>
      sample_intensity (state_at fb inp w) = intensity (inp c) \<and>
      px_read (state_at fb inp w) = dat_r (inp r) \<and>
      px_sum (state_at fb inp w) =
        ucast (pixel_byte (subpix_shift (inp r) (state_at fb inp r)) (dat_r (inp r)))"
proof -
  from assms have wr: "fsm (state_at fb inp w) = WRITE" by (simp add: write_req_def bus_we_def)
  from write_history [OF wr] obtain r where r: "r + 3 < w" "fsm (state_at fb inp r) = READ"
      "ack (inp r)"
      "fsm (state_at fb inp (r + 1)) = WAIT" "fsm (state_at fb inp (r + 2)) = WAIT2"
      "fsm (state_at fb inp (r + 3)) = WAIT3"
      "\<forall>k. r + 3 < k \<and> k \<le> w \<longrightarrow> fsm (state_at fb inp k) = WRITE"
      "\<forall>k. r < k \<and> k \<le> w \<longrightarrow>
         sample_regs (state_at fb inp k) = sample_regs (state_at fb inp r) \<and>
         bus_adr (state_at fb inp k) = bus_adr (state_at fb inp r) \<and>
         px_read (state_at fb inp k) = dat_r (inp r) \<and>
         px_sum (state_at fb inp k) =
           ucast (pixel_byte (subpix_shift (inp r) (state_at fb inp r)) (dat_r (inp r)))"
    by blast
  have "busy (state_at fb inp w)" using wr by (simp add: busy_def)
  from busy_origin [OF this] obtain c where c: "c < w" "captures (inp c) (state_at fb inp c)"
      "\<forall>k. c < k \<and> k \<le> w \<longrightarrow> busy (state_at fb inp k) \<and>
         sample_regs (state_at fb inp k) = sample_regs (latch_sample (inp c) (state_at fb inp c))"
    by blast
  from c(2) have lc: "fsm (state_at fb inp c) = LATCH0" by (simp add: captures_def ready_def)
  have nl: "fsm (state_at fb inp k) \<noteq> LATCH0" if "r \<le> k \<and> k \<le> w" for k
  proof -
    from that have "k = r \<or> k = r + 1 \<or> k = r + 2 \<or> k = r + 3 \<or> r + 3 < k \<and> k \<le> w"
      by auto
    then show ?thesis using r(2,4-7) by auto
  qed
  have cr: "c < r"
  proof (rule ccontr)
    assume "\<not> c < r"
    then have "r \<le> c \<and> c \<le> w" using c(1) by simp
    from nl [OF this] lc show False by simp
  qed
  have "r < w \<and> w \<le> w" using r(1) by simp
  with r(8) have h: "sample_regs (state_at fb inp w) = sample_regs (state_at fb inp r)"
    "bus_adr (state_at fb inp w) = bus_adr (state_at fb inp r)"
    "px_read (state_at fb inp w) = dat_r (inp r)"
    "px_sum (state_at fb inp w) =
       ucast (pixel_byte (subpix_shift (inp r) (state_at fb inp r)) (dat_r (inp r)))"
    by blast+
  have "c < w \<and> w \<le> w" using c(1) by simp
  with c(3) have "sample_regs (state_at fb inp w) =
      sample_regs (latch_sample (inp c) (state_at fb inp c))" by blast
  then have si: "sample_intensity (state_at fb inp w) = intensity (inp c)"
    by (simp add: sample_regs_def)
  from h(1) have xy: "sample_x (state_at fb inp w) = sample_x (state_at fb inp r)"
    "sample_y (state_at fb inp w) = sample_y (state_at fb inp r)"
    by (simp_all add: sample_regs_def)
  have rr: "read_req (state_at fb inp r)"
    using r(2) by (simp add: read_req_def bus_stb_def bus_cyc_def bus_we_def)
  show ?thesis using cr r(1) c(2) rr r(3) h(2) xy si h(3) h(4) by blast
qed

lemma write_intensity_on_run:
  assumes "write_req (state_at fb inp w)"
  shows "\<exists>c r. c < r \<and> r + 3 < w \<and> captures (inp c) (state_at fb inp c) \<and>
      read_req (state_at fb inp r) \<and> ack (inp r) \<and>
      bus_adr (state_at fb inp w) = bus_adr (state_at fb inp r) \<and>
      bits_7_4 (pixel_byte (subpix_shift (inp w) (state_at fb inp w))
          (bus_dat_w (inp w) (state_at fb inp w))) =
        min 15 (bits_7_4 (pixel_byte (subpix_shift (inp r) (state_at fb inp r)) (dat_r (inp r)))
                + unat (intensity (inp c))) \<and>
      (rotate_left (inp w) = rotate_left (inp r) \<longrightarrow>
         bits_7_4 (pixel_byte (subpix_shift (inp w) (state_at fb inp w))
             (bus_dat_w (inp w) (state_at fb inp w))) =
           min 15 (bits_7_4 (pixel_byte (subpix_shift (inp w) (state_at fb inp w)) (dat_r (inp r)))
                   + unat (intensity (inp c))))"
proof -
  from assms have wr: "fsm (state_at fb inp w) = WRITE" by (simp add: write_req_def bus_we_def)
  from write_provenance [OF assms] obtain c r where p: "c < r" "r + 3 < w"
      "captures (inp c) (state_at fb inp c)" "read_req (state_at fb inp r)" "ack (inp r)"
      "bus_adr (state_at fb inp w) = bus_adr (state_at fb inp r)"
      "sample_x (state_at fb inp w) = sample_x (state_at fb inp r)"
      "sample_y (state_at fb inp w) = sample_y (state_at fb inp r)"
      "sample_intensity (state_at fb inp w) = intensity (inp c)"
      "px_sum (state_at fb inp w) =
        ucast (pixel_byte (subpix_shift (inp r) (state_at fb inp r)) (dat_r (inp r)))"
    by blast
  have sum: "intensity_sum (state_at fb inp w) =
      bits_7_4 (pixel_byte (subpix_shift (inp r) (state_at fb inp r)) (dat_r (inp r)))
        + unat (intensity (inp c))"
    unfolding intensity_sum_def px_sum_4_8_byte [OF p(10)] p(9) ..
  have a: "bits_7_4 (pixel_byte (subpix_shift (inp w) (state_at fb inp w))
          (bus_dat_w (inp w) (state_at fb inp w))) =
        min 15 (bits_7_4 (pixel_byte (subpix_shift (inp r) (state_at fb inp r)) (dat_r (inp r)))
                + unat (intensity (inp c)))"
    using written_intensity [OF wr, of "inp w"] unfolding sum .
  have b: "bits_7_4 (pixel_byte (subpix_shift (inp w) (state_at fb inp w))
             (bus_dat_w (inp w) (state_at fb inp w))) =
           min 15 (bits_7_4 (pixel_byte (subpix_shift (inp w) (state_at fb inp w)) (dat_r (inp r)))
                   + unat (intensity (inp c)))"
    if "rotate_left (inp w) = rotate_left (inp r)"
    using a position_cong(1) [OF that p(7,8)] by simp
  show ?thesis using p(1-6) a b by blast
qed

text \<open>
  Claim C1, amended. In every cycle with a write request, on every run from power-up
  under any inputs, the intensity nibble that the payload carries at the shift of the write
  cycle is \<open>min 15 (e + s)\<close>: \<open>e\<close> is the intensity nibble of the byte extracted
  from the word read, at the shift of the cycle that acknowledged the read of the same
  transaction, and \<open>s\<close> is the intensity step of the cycle that captured the point. It
  is 15 when the sum reaches or exceeds 15 and the exact sum otherwise, so it never wraps.
  When the rotation flag is the same in the read acknowledge and the write cycle, \<open>e\<close> is
  the intensity stored for the very pixel that is written. Drawing the same in-bounds
  point \<open>N\<close> times in a row under one configuration, whatever the memory latencies, leaves
  the pixel at \<open>min 15 (b + N * step)\<close> from a stored intensity \<open>b\<close>, and at
  \<open>min 15 (N * step)\<close> from intensity 0.
\<close>

theorem intensity_accumulates_saturating:
  "(fsm s = WRITE \<longrightarrow>
      bits_7_4 (pixel_byte (subpix_shift i s) (bus_dat_w i s)) =
        min 15 (px_sum_4_8 s + unat (sample_intensity s))) \<and>
   (write_req (state_at fb inp w) \<longrightarrow>
      (\<exists>c r. c < r \<and> r + 3 < w \<and> captures (inp c) (state_at fb inp c) \<and>
         read_req (state_at fb inp r) \<and> ack (inp r) \<and>
         bus_adr (state_at fb inp w) = bus_adr (state_at fb inp r) \<and>
         bits_7_4 (pixel_byte (subpix_shift (inp w) (state_at fb inp w))
             (bus_dat_w (inp w) (state_at fb inp w))) =
           min 15 (bits_7_4 (pixel_byte (subpix_shift (inp r) (state_at fb inp r)) (dat_r (inp r)))
                   + unat (intensity (inp c))) \<and>
         (rotate_left (inp w) = rotate_left (inp r) \<longrightarrow>
            bits_7_4 (pixel_byte (subpix_shift (inp w) (state_at fb inp w))
                (bus_dat_w (inp w) (state_at fb inp w))) =
              min 15 (bits_7_4 (pixel_byte (subpix_shift (inp w) (state_at fb inp w))
                          (dat_r (inp r)))
                      + unat (intensity (inp c)))))) \<and>
   (fsm s0 = LATCH0 \<and> fb_enable j \<and> in_bounds fb j (latch_sample j s0) \<longrightarrow>
      bits_7_4 (pixel_byte (target_shift j s0)
          (snd (sys_run fb (s0, m) (draws j ds)) (target_adr fb j s0))) =
        min 15 (bits_7_4 (pixel_byte (target_shift j s0) (m (target_adr fb j s0)))
                + length ds * unat (intensity j))) \<and>
   (fsm s0 = LATCH0 \<and> fb_enable j \<and> in_bounds fb j (latch_sample j s0) \<and>
    bits_7_4 (pixel_byte (target_shift j s0) (m (target_adr fb j s0))) = 0 \<longrightarrow>
      bits_7_4 (pixel_byte (target_shift j s0)
          (snd (sys_run fb (s0, m) (draws j ds)) (target_adr fb j s0))) =
        min 15 (length ds * unat (intensity j)))"
proof (intro conjI impI)
  assume "fsm s = WRITE"
  then show "bits_7_4 (pixel_byte (subpix_shift i s) (bus_dat_w i s)) =
      min 15 (px_sum_4_8 s + unat (sample_intensity s))"
    using written_intensity [of s i] by (simp add: intensity_sum_def)
next
  assume "write_req (state_at fb inp w)"
  then show "\<exists>c r. c < r \<and> r + 3 < w \<and> captures (inp c) (state_at fb inp c) \<and>
         read_req (state_at fb inp r) \<and> ack (inp r) \<and>
         bus_adr (state_at fb inp w) = bus_adr (state_at fb inp r) \<and>
         bits_7_4 (pixel_byte (subpix_shift (inp w) (state_at fb inp w))
             (bus_dat_w (inp w) (state_at fb inp w))) =
           min 15 (bits_7_4 (pixel_byte (subpix_shift (inp r) (state_at fb inp r)) (dat_r (inp r)))
                   + unat (intensity (inp c))) \<and>
         (rotate_left (inp w) = rotate_left (inp r) \<longrightarrow>
            bits_7_4 (pixel_byte (subpix_shift (inp w) (state_at fb inp w))
                (bus_dat_w (inp w) (state_at fb inp w))) =
              min 15 (bits_7_4 (pixel_byte (subpix_shift (inp w) (state_at fb inp w))
                          (dat_r (inp r)))
                      + unat (intensity (inp c))))"
    by (rule write_intensity_on_run)
next
  assume "fsm s0 = LATCH0 \<and> fb_enable j \<and> in_bounds fb j (latch_sample j s0)"
  then show "bits_7_4 (pixel_byte (target_shift j s0)
          (snd (sys_run fb (s0, m) (draws j ds)) (target_adr fb j s0))) =
        min 15 (bits_7_4 (pixel_byte (target_shift j s0) (m (target_adr fb j s0)))
                + length ds * unat (intensity j))"
    using draws_intensity [of s0 j fb m ds] by simp
next
  assume "fsm s0 = LATCH0 \<and> fb_enable j \<and> in_bounds fb j (latch_sample j s0) \<and>
    bits_7_4 (pixel_byte (target_shift j s0) (m (target_adr fb j s0))) = 0"
  then show "bits_7_4 (pixel_byte (target_shift j s0)
          (snd (sys_run fb (s0, m) (draws j ds)) (target_adr fb j s0))) =
        min 15 (length ds * unat (intensity j))"
    using draws_intensity [of s0 j fb m ds] by simp
qed

lemma old_word_nibbles:
  "bits_7_4 (pixel_byte 0 0x11223A44) = 4" "bits_7_4 (pixel_byte 8 0x11223A44) = 3"
  "bits_7_4 (pixel_byte 0 0x11223AB5) = 11" "bits_7_4 (pixel_byte 8 0x11223AB5) = 3"
  by (simp_all add: bits_7_4_arith unat_pixel_byte)

text \<open>
  Claim C1, as stated, fails when the rotation flag changes inside a transaction. The
  point (1, 0) is captured with step 8 and read unrotated from the word \<open>0x11223A44\<close>,
  at shift 8; in the write cycle the flag is set, the shift is 0, and the word written is
  \<open>0x11223AB5\<close>. The pixel written held intensity 4 and now holds 11, not
  \<open>min 15 (4 + 8) = 12\<close>.
\<close>

theorem rotation_toggled_intensity_counterexample:
  "\<not> rotate_left one_zero \<and> rotate_left one_zero_turned \<and>
   unat (intensity one_zero) = 8 \<and> unat (intensity one_zero_turned) = 8 \<and>
   snd (sys_run scenario_fb (idle_state, \<lambda>a. 0x11223A44)
      [one_zero, one_zero, one_zero, one_zero, one_zero, one_zero, one_zero_turned]) 264 =
     0x11223AB5 \<and>
   subpix_shift one_zero_turned
     (fst (sys_run scenario_fb (idle_state, \<lambda>a. 0x11223A44)
        [one_zero, one_zero, one_zero, one_zero, one_zero, one_zero])) = 0 \<and>
   bits_7_4 (pixel_byte 0 0x11223A44) = 4 \<and>
   bits_7_4 (pixel_byte 0 (snd (sys_run scenario_fb (idle_state, \<lambda>a. 0x11223A44)
      [one_zero, one_zero, one_zero, one_zero, one_zero, one_zero, one_zero_turned]) 264)) = 11 \<and>
   bits_7_4 (pixel_byte 0 (snd (sys_run scenario_fb (idle_state, \<lambda>a. 0x11223A44)
      [one_zero, one_zero, one_zero, one_zero, one_zero, one_zero, one_zero_turned]) 264)) \<noteq>
     min 15 (bits_7_4 (pixel_byte 0 0x11223A44) + unat (intensity one_zero_turned))"
proof -
  have before: "sys_run scenario_fb (idle_state, \<lambda>a. 0x11223A44)
        [one_zero, one_zero, one_zero, one_zero, one_zero, one_zero] =
      (reset_state\<lparr>sample_x := 1, sample_intensity := 8, px_read := 0x11223A44, px_sum := 0x3A,
         bus_sel := 0xF, bus_adr := 264, fsm := WRITE\<rparr>, \<lambda>a. 0x11223A44)"
    by (simp add: sys_run_Cons sys_run_Nil
      sys_step_def step_def fsm_step_def mem_step_def one_zero_def scenario_inputs_def
      idle_state_def reset_state_def scenario_fb_def latch_sample_def in_bounds_def x_offs_def
      y_offs_def pixel_offs_def fb_hwords_def subpix_shift_def write_req_def bus_stb_def
      bus_cyc_def bus_we_def)
  have flags: "\<not> rotate_left one_zero" "rotate_left one_zero_turned"
    "unat (intensity one_zero) = 8" "unat (intensity one_zero_turned) = 8"
    by (simp_all add: one_zero_def one_zero_turned_def scenario_inputs_def)
  have sh: "subpix_shift one_zero_turned
     (reset_state\<lparr>sample_x := 1, sample_intensity := 8, px_read := 0x11223A44, px_sum := 0x3A,
         bus_sel := 0xF, bus_adr := 264, fsm := WRITE\<rparr>) = 0"
    using flags(2) by (simp add: subpix_shift_def reset_state_def)
  show ?thesis
    unfolding toggled_run before
    using flags sh by (simp add: old_word_nibbles)
qed

theorem intensity_accumulates_saturating_witness:
  "fsm write_state = WRITE \<and>
   bits_7_4 (pixel_byte (subpix_shift scenario_inputs write_state)
      (bus_dat_w scenario_inputs write_state)) = 11 \<and>
   write_req (state_at scenario_fb steady 7) \<and>
   (\<exists>c r. c < r \<and> r + 3 < 7 \<and> captures (steady c) (state_at scenario_fb steady c) \<and>
      read_req (state_at scenario_fb steady r) \<and> ack (steady r) \<and>
      bits_7_4 (pixel_byte (subpix_shift (steady 7) (state_at scenario_fb steady 7))
          (bus_dat_w (steady 7) (state_at scenario_fb steady 7))) =
        min 15 (bits_7_4 (pixel_byte (subpix_shift (steady 7) (state_at scenario_fb steady 7))
                    (dat_r (steady r)))
                + unat (intensity (steady c)))) \<and>
   fsm idle_state = LATCH0 \<and> fb_enable scenario_inputs \<and>
   in_bounds scenario_fb scenario_inputs (latch_sample scenario_inputs idle_state) \<and>
   bits_7_4 (pixel_byte (target_shift scenario_inputs idle_state) (0 :: 32 word)) = 0 \<and>
   bits_7_4 (pixel_byte (target_shift scenario_inputs idle_state)
      (snd (sys_run scenario_fb (idle_state, \<lambda>a. 0) (draws scenario_inputs [(0, 0), (2, 1), (0, 3)]))
         (target_adr scenario_fb scenario_inputs idle_state))) = 3"
proof -
  note t = intensity_accumulates_saturating [where s = write_state and i = scenario_inputs
      and fb = scenario_fb and inp = steady and w = 7 and ?s0.0 = idle_state
      and j = scenario_inputs and m = "\<lambda>a. 0" and ds = "[(0, 0), (2, 1), (0, 3)]"]
  have w: "fsm write_state = WRITE" by (simp add: write_state_def)
  have q: "px_sum_4_8 write_state + unat (sample_intensity write_state) = 11"
    by (simp add: px_sum_4_8_def write_state_def read_state_def)
  have a: "bits_7_4 (pixel_byte (subpix_shift scenario_inputs write_state)
      (bus_dat_w scenario_inputs write_state)) = 11"
    using t [THEN conjunct1] w q by simp
  have h7: "write_req (state_at scenario_fb steady 7)"
    unfolding steady_7 by (simp add: write_req_def bus_stb_def bus_cyc_def bus_we_def)
  have rot: "rotate_left (steady 7) = rotate_left (steady r)" for r
    by (simp add: steady_def)
  have b: "\<exists>c r. c < r \<and> r + 3 < 7 \<and> captures (steady c) (state_at scenario_fb steady c) \<and>
      read_req (state_at scenario_fb steady r) \<and> ack (steady r) \<and>
      bits_7_4 (pixel_byte (subpix_shift (steady 7) (state_at scenario_fb steady 7))
          (bus_dat_w (steady 7) (state_at scenario_fb steady 7))) =
        min 15 (bits_7_4 (pixel_byte (subpix_shift (steady 7) (state_at scenario_fb steady 7))
                    (dat_r (steady r)))
                + unat (intensity (steady c)))"
    using t [THEN conjunct2, THEN conjunct1] h7 rot by blast
  have l: "fsm idle_state = LATCH0" by (simp add: idle_state_def)
  have e: "fb_enable scenario_inputs" by (simp add: scenario_inputs_def)
  have z: "bits_7_4 (pixel_byte (target_shift scenario_inputs idle_state) (0 :: 32 word)) = 0"
    by (simp add: bits_7_4_def pixel_byte_def)
  have u: "unat (intensity scenario_inputs) = 1" by (simp add: scenario_inputs_def)
  have c: "bits_7_4 (pixel_byte (target_shift scenario_inputs idle_state)
      (snd (sys_run scenario_fb (idle_state, \<lambda>a. 0) (draws scenario_inputs [(0, 0), (2, 1), (0, 3)]))
         (target_adr scenario_fb scenario_inputs idle_state))) = 3"
    using t [THEN conjunct2, THEN conjunct2, THEN conjunct2] l e z u scenario_in_bounds by simp
  show ?thesis using w a h7 b l e scenario_in_bounds z c by blast
qed

end
